theory Spec2Isabelle
  imports Main "HOL-Library.Sublist" "HOL-Library.Word"
begin

unbundle bit_operations_syntax

section \<open>Python values used by the audit engine\<close>

text \<open>
  Exceptions of the Python source are values.  A function that can raise returns
  \<open>py_error + 'a\<close>, with \<open>Inl\<close> carrying the exception.
\<close>

datatype py_error =
  NameError | KeyError | IndexError | AttributeError | IOError | OSError | ParseError | OtherError

text \<open>A Python dictionary with string keys.\<close>

type_synonym 'v dict = "string \<rightharpoonup> 'v"

text \<open>Characters that cannot be written inside a string literal.\<close>

definition ch_newline :: char where "ch_newline = CHR 0x0A"
definition ch_return :: char where "ch_return = CHR 0x0D"
definition ch_tab :: char where "ch_tab = CHR 0x09"
definition ch_dquote :: char where "ch_dquote = CHR 0x22"
definition ch_squote :: char where "ch_squote = CHR 0x27"

text \<open>
  \<open>str.replace(old, new)\<close>: every non-overlapping occurrence of \<open>old\<close>, found
  from left to right, is replaced by \<open>new\<close>.  The source only calls it with a
  non-empty \<open>old\<close>; for an empty \<open>old\<close> this model returns the string unchanged.
\<close>

fun str_replace :: "string \<Rightarrow> string \<Rightarrow> string \<Rightarrow> string" where
  "str_replace old new [] = []"
| "str_replace old new (c # cs) =
     (if old \<noteq> [] \<and> prefix old (c # cs)
      then new @ str_replace old new (drop (length old - 1) cs)
      else c # str_replace old new cs)"

text \<open>
  \<open>str.strip()\<close> of a byte string removes leading and trailing ASCII whitespace.
\<close>

definition str_isspace :: "char \<Rightarrow> bool" where
  "str_isspace c = (c \<in> set [CHR 0x09, CHR 0x0A, CHR 0x0B, CHR 0x0C, CHR 0x0D, CHR 0x20])"

definition str_strip :: "string \<Rightarrow> string" where
  "str_strip s = rev (dropWhile str_isspace (rev (dropWhile str_isspace s)))"

text \<open>
  \<open>unicode.strip()\<close> removes the characters for which \<open>isspace()\<close> holds; among the
  code points below 256 these are the ASCII whitespace, the separators
  \<open>0x1C\<close> to \<open>0x1F\<close>, \<open>0x85\<close> and \<open>0xA0\<close>.
\<close>

definition unicode_isspace :: "char \<Rightarrow> bool" where
  "unicode_isspace c =
     (c \<in> set [CHR 0x09, CHR 0x0A, CHR 0x0B, CHR 0x0C, CHR 0x0D, CHR 0x1C, CHR 0x1D,
               CHR 0x1E, CHR 0x1F, CHR 0x20, CHR 0x85, CHR 0xA0])"

definition unicode_strip :: "string \<Rightarrow> string" where
  "unicode_strip s = rev (dropWhile unicode_isspace (rev (dropWhile unicode_isspace s)))"

text \<open>
  \<open>s.split(sep)\<close> for a separator of one character: the pieces between the
  occurrences of the separator; the result is never empty.
\<close>

fun str_split :: "char \<Rightarrow> string \<Rightarrow> string list" where
  "str_split sep [] = [[]]"
| "str_split sep (c # cs) =
     (if c = sep then [] # str_split sep cs
      else (case str_split sep cs of
              [] \<Rightarrow> [[c]]
            | piece # pieces \<Rightarrow> (c # piece) # pieces))"

text \<open>
  \<open>s.decode(errors = 'replace')\<close> decodes a byte string as ASCII; every byte
  outside ASCII becomes the replacement character U+FFFD.  Decoded text is kept in
  8-bit characters, with \<open>CHR 0xFF\<close> standing for U+FFFD.
\<close>

definition decode_replace :: "string \<Rightarrow> string" where
  "decode_replace s = map (\<lambda>c. if (of_char c :: nat) < 128 then c else CHR 0xFF) s"

text \<open>\<open>' '.join(strs)\<close>.\<close>

fun str_join :: "string \<Rightarrow> string list \<Rightarrow> string" where
  "str_join sep [] = []"
| "str_join sep [s] = s"
| "str_join sep (s # t # ts) = s @ sep @ str_join sep (t # ts)"

section \<open>XML text escaping (utils.py)\<close>

text \<open>
  Both functions apply their replacements one after the other, in the order of the
  source.  The argument of \<open>text_escape_XML\<close> is a string; its conversion of other
  values by \<open>str()\<close> is left out.
\<close>

definition text_escape_XML :: "string \<Rightarrow> string" where
  "text_escape_XML data_str =
    (let data_str = str_replace ''&'' ''&amp;'' data_str;
         data_str = str_replace ''>'' ''&gt;'' data_str;
         data_str = str_replace ''<'' ''&lt;'' data_str;
         data_str = str_replace [ch_squote] ''&apos;'' data_str;
         data_str = str_replace [ch_dquote] ''&quot;'' data_str;
         data_str = str_replace [ch_newline] ''&#10;'' data_str;
         data_str = str_replace [ch_return] ''&#13;'' data_str;
         data_str = str_replace [ch_tab] ''&#9;'' data_str
     in data_str)"

definition text_unescape_XML :: "string \<Rightarrow> string" where
  "text_unescape_XML data_str =
    (let data_str = str_replace ''&quot;'' [ch_dquote] data_str;
         data_str = str_replace ''&apos;'' [ch_squote] data_str;
         data_str = str_replace ''&lt;'' ''<'' data_str;
         data_str = str_replace ''&gt;'' ''>'' data_str;
         data_str = str_replace ''&amp;'' ''&'' data_str;
         data_str = str_replace ''&#10;'' [ch_newline] data_str;
         data_str = str_replace ''&#13;'' [ch_return] data_str;
         data_str = str_replace ''&#9;'' [ch_tab] data_str
     in data_str)"


text \<open>
  What escaping does to one character, and the text in which the characters of a
  list \<open>E\<close> are written as entities and all others as themselves.
\<close>

definition xml_entity :: "char \<Rightarrow> string" where
  "xml_entity c =
     (if c = CHR ''&'' then ''&amp;''
      else if c = CHR ''>'' then ''&gt;''
      else if c = CHR ''<'' then ''&lt;''
      else if c = ch_squote then ''&apos;''
      else if c = ch_dquote then ''&quot;''
      else if c = ch_newline then ''&#10;''
      else if c = ch_return then ''&#13;''
      else if c = ch_tab then ''&#9;''
      else [c])"

definition xml_block :: "char list \<Rightarrow> char \<Rightarrow> string" where
  "xml_block E c = (if c \<in> set E then xml_entity c else [c])"

text \<open>
  The string contains none of the texts \<open>&#10;\<close>, \<open>&#13;\<close> and \<open>&#9;\<close>.
\<close>

fun no_numeric_entity :: "string \<Rightarrow> bool" where
  "no_numeric_entity [] = True"
| "no_numeric_entity (c # cs) =
     (\<not> (c = CHR ''&'' \<and> (prefix ''#10;'' cs \<or> prefix ''#13;'' cs \<or> prefix ''#9;'' cs))
      \<and> no_numeric_entity cs)"

section \<open>Catalog records and the parent/clone dictionary (rom\_audit.py)\<close>

text \<open>The dictionary made by \<open>audit_new_rom_logiqx\<close>: four fixed keys.\<close>

record rom_logiqx =
  name :: string
  cloneof :: string
  year :: string
  manufacturer :: string

definition audit_new_rom_logiqx :: rom_logiqx where
  "audit_new_rom_logiqx = \<lparr>name = '''', cloneof = '''', year = '''', manufacturer = ''''\<rparr>"

text \<open>
  \<open>audit_make_NoIntro_PClone_dic\<close> iterates over the catalog dictionary.  The
  catalog is given as the list of its items in iteration order (Python fixes no
  order); the keys of a dictionary are distinct.  One iteration of the loop:
\<close>

fun pclone_step :: "string list dict \<Rightarrow> string \<times> rom_logiqx \<Rightarrow> string list dict" where
  "pclone_step main_pclone_dic (machine_name, machine) =
     (if cloneof machine \<noteq> [] then
        (let parent_name = cloneof machine in
         case main_pclone_dic parent_name of
           None \<Rightarrow> main_pclone_dic(parent_name \<mapsto> [] @ [machine_name])
         | Some clones \<Rightarrow> main_pclone_dic(parent_name \<mapsto> clones @ [machine_name]))
      else
        (case main_pclone_dic machine_name of
           None \<Rightarrow> main_pclone_dic(machine_name \<mapsto> [])
         | Some clones \<Rightarrow> main_pclone_dic))"

definition audit_make_NoIntro_PClone_dic ::
    "(string \<times> rom_logiqx) list \<Rightarrow> string list dict" where
  "audit_make_NoIntro_PClone_dic nointro_dic = foldl pclone_step Map.empty nointro_dic"

text \<open>
  Two notions used to state what the dictionary holds: the records naming \<open>p\<close> as
  their parent, in iteration order, and whether \<open>p\<close> becomes a key.
\<close>

definition clones_of :: "string \<Rightarrow> (string \<times> rom_logiqx) list \<Rightarrow> string list" where
  "clones_of p cat = map fst (filter (\<lambda>(n, m). cloneof m \<noteq> [] \<and> cloneof m = p) cat)"

definition is_key :: "string \<Rightarrow> (string \<times> rom_logiqx) list \<Rightarrow> bool" where
  "is_key p cat =
     (\<exists>(n, m) \<in> set cat. (cloneof m = [] \<and> n = p) \<or> (cloneof m \<noteq> [] \<and> cloneof m = p))"

definition catalog_example :: "(string \<times> rom_logiqx) list" where
  "catalog_example =
     [(''A'', audit_new_rom_logiqx\<lparr>name := ''A''\<rparr>),
      (''B'', audit_new_rom_logiqx\<lparr>name := ''B'', cloneof := ''A''\<rparr>)]"

section \<open>Catalog loaders (rom\_audit.py)\<close>

text \<open>
  An \<open>ElementTree\<close> element: tag, attributes, text (\<open>None\<close> when absent) and child
  elements.  Iterating over an element visits its children in document order.
\<close>

datatype xml_element =
  Element (el_tag: string) (el_attrib: "(string \<times> string) list")
          (el_text: "string option") (el_children: "xml_element list")

text \<open>
  The file object handed to an XML loader, seen through the two methods that decide
  what the loaders do: \<open>exists()\<close> and \<open>readXml()\<close>, which reads the whole file and
  parses it, giving the root element or raising.  The loaders also call
  \<open>getPath()\<close> and \<open>getOriginalPath()\<close> for their log messages.  The object is taken
  to be of a class with all these methods, as \<open>FileNameBase\<close> and its subclasses are
  (\<open>NewFileName\<close> has neither \<open>readXml\<close> nor \<open>getOriginalPath\<close>).
\<close>

record xml_file =
  file_exists :: bool
  file_readXml :: "py_error + xml_element"

subsection \<open>LaunchBox metadata\<close>

definition audit_new_LB_game :: "string dict" where
  "audit_new_LB_game = map_of
     [(''Name'', ''''), (''ReleaseYear'', ''''), (''Overview'', ''''), (''MaxPlayers'', ''''),
      (''Cooperative'', ''''), (''VideoURL'', ''''), (''DatabaseID'', ''''),
      (''CommunityRating'', ''''), (''Platform'', ''''), (''Genres'', ''''),
      (''Publisher'', ''''), (''Developer'', ''''), (''ReleaseDate'', ''''), (''ESRB'', ''''),
      (''WikipediaURL'', ''''), (''DOS'', ''''), (''StartupFile'', ''''), (''StartupMD5'', ''''),
      (''SetupFile'', ''''), (''SetupMD5'', ''''), (''StartupParameters'', '''')]"

definition audit_new_LB_platform :: "string dict" where
  "audit_new_LB_platform = map_of
     [(''Name'', ''''), (''Emulated'', ''''), (''ReleaseDate'', ''''), (''Developer'', ''''),
      (''Manufacturer'', ''''), (''Cpu'', ''''), (''Memory'', ''''), (''Graphics'', ''''),
      (''Sound'', ''''), (''Display'', ''''), (''Media'', ''''), (''MaxControllers'', ''''),
      (''Notes'', ''''), (''Category'', ''''), (''UseMameFiles'', '''')]"

definition audit_new_LB_gameImage :: "string dict" where
  "audit_new_LB_gameImage = map_of
     [(''DatabaseID'', ''''), (''FileName'', ''''), (''Type'', ''''), (''CRC32'', ''''),
      (''Region'', '''')]"

text \<open>
  The inner loop over the children of a \<open><Game>\<close>, \<open><Platform>\<close> or \<open><GameImage>\<close>
  element (the source has the same loop three times, once per template).  \<open>None\<close>
  is the \<open>return\<close> taken at a child tag that is not a key of the record.
\<close>

fun lb_read_children :: "string dict \<Rightarrow> xml_element list \<Rightarrow> string dict option" where
  "lb_read_children record [] = Some record"
| "lb_read_children record (xml_child # rest) =
     (let xml_tag = el_tag xml_child;
          xml_text = (case el_text xml_child of Some t \<Rightarrow> t | None \<Rightarrow> '''')
      in if record xml_tag = None then None
         else lb_read_children (record(xml_tag \<mapsto> text_unescape_XML xml_text)) rest)"

text \<open>
  The three output dictionaries (games, platforms, game images) are arguments that
  the loader updates in place; the model returns them.  The outer loop:
\<close>

type_synonym lb_dics = "string dict dict \<times> string dict dict \<times> string dict dict"

fun lb_read_elements :: "lb_dics \<Rightarrow> xml_element list \<Rightarrow> py_error + lb_dics" where
  "lb_read_elements dics [] = Inr dics"
| "lb_read_elements (games_dic, platforms_dic, gameimages_dic) (xml_element # rest) =
     (if el_tag xml_element = ''Game'' then
        (case lb_read_children audit_new_LB_game (el_children xml_element) of
           None \<Rightarrow> Inr (games_dic, platforms_dic, gameimages_dic)
         | Some game \<Rightarrow>
             (case game ''Name'' of
                None \<Rightarrow> Inl KeyError
              | Some key \<Rightarrow>
                  lb_read_elements (games_dic(key \<mapsto> game), platforms_dic, gameimages_dic) rest))
      else if el_tag xml_element = ''Platform'' then
        (case lb_read_children audit_new_LB_platform (el_children xml_element) of
           None \<Rightarrow> Inr (games_dic, platforms_dic, gameimages_dic)
         | Some platform \<Rightarrow>
             (case platform ''Name'' of
                None \<Rightarrow> Inl KeyError
              | Some key \<Rightarrow>
                  lb_read_elements (games_dic, platforms_dic(key \<mapsto> platform), gameimages_dic) rest))
      else if el_tag xml_element = ''PlatformAlternateName'' then
        lb_read_elements (games_dic, platforms_dic, gameimages_dic) rest
      else if el_tag xml_element = ''Emulator'' then
        lb_read_elements (games_dic, platforms_dic, gameimages_dic) rest
      else if el_tag xml_element = ''EmulatorPlatform'' then
        lb_read_elements (games_dic, platforms_dic, gameimages_dic) rest
      else if el_tag xml_element = ''GameAlternateName'' then
        lb_read_elements (games_dic, platforms_dic, gameimages_dic) rest
      else if el_tag xml_element = ''GameImage'' then
        (case lb_read_children audit_new_LB_gameImage (el_children xml_element) of
           None \<Rightarrow> Inr (games_dic, platforms_dic, gameimages_dic)
         | Some game_image \<Rightarrow>
             (case game_image ''FileName'' of
                None \<Rightarrow> Inl KeyError
              | Some key \<Rightarrow>
                  lb_read_elements (games_dic, platforms_dic, gameimages_dic(key \<mapsto> game_image)) rest))
      else Inr (games_dic, platforms_dic, gameimages_dic))"

text \<open>
  When the file does not exist the source formats its error message from
  \<open>xml_file.getOriginalPath()\<close>; the parameter is called \<open>filename_FN\<close> and no name
  \<open>xml_file\<close> is bound, so that branch raises \<open>NameError\<close>.  Only \<open>ParseError\<close> is
  caught around \<open>readXml()\<close>.  Every raise happens before the dictionaries are touched.
\<close>

definition audit_load_LB_metadata_XML :: "xml_file \<Rightarrow> lb_dics \<Rightarrow> py_error + lb_dics" where
  "audit_load_LB_metadata_XML filename_FN dics =
     (if \<not> file_exists filename_FN then Inl NameError
      else case file_readXml filename_FN of
             Inl e \<Rightarrow> (if e = ParseError then Inr dics else Inl e)
           | Inr xml_root \<Rightarrow> lb_read_elements dics (el_children xml_root))"

text \<open>
  An element of the file at which the loader returns because of a child tag: a
  \<open><Game>\<close>, \<open><Platform>\<close> or \<open><GameImage>\<close> with a child whose tag is not a key of
  the record's template.
\<close>

definition lb_unknown_child :: "xml_element \<Rightarrow> bool" where
  "lb_unknown_child e =
     ((el_tag e = ''Game'' \<and> (\<exists>c \<in> set (el_children e). audit_new_LB_game (el_tag c) = None)) \<or>
      (el_tag e = ''Platform'' \<and>
         (\<exists>c \<in> set (el_children e). audit_new_LB_platform (el_tag c) = None)) \<or>
      (el_tag e = ''GameImage'' \<and>
         (\<exists>c \<in> set (el_children e). audit_new_LB_gameImage (el_tag c) = None)))"

text \<open>
  What the output dictionaries are said to hold.  The record completed from an
  element is the template with the text of every child stored under the child's
  tag; the records of a list of elements are stored one after the other, each under
  the value of its key field, for the elements with the given main tag.
\<close>

definition lb_complete_record :: "string dict \<Rightarrow> xml_element \<Rightarrow> string dict" where
  "lb_complete_record template e =
     foldl (\<lambda>r c. r(el_tag c \<mapsto>
                     text_unescape_XML (case el_text c of Some t \<Rightarrow> t | None \<Rightarrow> '''')))
           template (el_children e)"

definition lb_records_of ::
    "string \<Rightarrow> string \<Rightarrow> string dict \<Rightarrow> string dict dict \<Rightarrow> xml_element list
      \<Rightarrow> string dict dict" where
  "lb_records_of main_tag key_field template dic es =
     foldl (\<lambda>d e. case lb_complete_record template e key_field of
                     Some k \<Rightarrow> d(k \<mapsto> lb_complete_record template e)
                   | None \<Rightarrow> d)
           dic (filter (\<lambda>e. el_tag e = main_tag) es)"

text \<open>
  An element that the loader reads to its end: one of the seven main tags it knows,
  without a child tag outside the template.
\<close>

definition lb_readable :: "xml_element \<Rightarrow> bool" where
  "lb_readable e =
     (el_tag e \<in> set [''Game'', ''Platform'', ''PlatformAlternateName'', ''Emulator'',
                      ''EmulatorPlatform'', ''GameAlternateName'', ''GameImage'']
      \<and> \<not> lb_unknown_child e)"

subsection \<open>No-Intro parent/clone DAT\<close>

text \<open>The loop over the children of the root element.\<close>

fun nointro_read_elements ::
    "rom_logiqx dict \<Rightarrow> xml_element list \<Rightarrow> py_error + rom_logiqx dict" where
  "nointro_read_elements nointro_roms [] = Inr nointro_roms"
| "nointro_read_elements nointro_roms (root_element # rest) =
     (if el_tag root_element = ''game'' then
        (case map_of (el_attrib root_element) ''name'' of
           None \<Rightarrow> Inl KeyError
         | Some rom_name \<Rightarrow>
             (let nointro_rom = audit_new_rom_logiqx\<lparr>name := rom_name\<rparr>;
                  nointro_rom = (case map_of (el_attrib root_element) ''cloneof'' of
                                   Some c \<Rightarrow> nointro_rom\<lparr>cloneof := c\<rparr>
                                 | None \<Rightarrow> nointro_rom)
              in nointro_read_elements (nointro_roms(rom_name \<mapsto> nointro_rom)) rest))
      else nointro_read_elements nointro_roms rest)"

text \<open>
  After \<open>xml_root = xml_FN.readXml()\<close> the source assigns
  \<open>xml_root = xml_tree.getroot()\<close>.  No \<open>xml_tree\<close> is bound in the function, in
  rom\_audit.py or in utils.py; the remaining source of global names is the module
  \<open>utils_kodi\<close>, so the binding of the global name is a parameter: \<open>None\<close> when the
  name is unbound (the lookup raises \<open>NameError\<close>), \<open>Some r\<close> when it is bound to a
  tree with root \<open>r\<close>.
\<close>

definition audit_load_NoIntro_XML_file ::
    "xml_element option \<Rightarrow> xml_file \<Rightarrow> py_error + rom_logiqx dict" where
  "audit_load_NoIntro_XML_file xml_tree xml_FN =
     (if \<not> file_exists xml_FN then Inr Map.empty
      else case file_readXml xml_FN of
             Inl e \<Rightarrow> (if e = ParseError \<or> e = IOError then Inr Map.empty else Inl e)
           | Inr xml_root \<Rightarrow>
               (case xml_tree of
                  None \<Rightarrow> Inl NameError
                | Some tree_root \<Rightarrow> nointro_read_elements Map.empty (el_children tree_root)))"

definition nointro_example_file :: xml_file where
  "nointro_example_file =
     \<lparr>file_exists = True,
      file_readXml = Inr (Element ''datafile'' [] None
        [Element ''game'' [(''name'', ''A'')] None [],
         Element ''game'' [(''name'', ''B''), (''cloneof'', ''A'')] None []])\<rparr>"

subsection \<open>Tempest INI\<close>

definition audit_new_rom_GameDB :: "string dict" where
  "audit_new_rom_GameDB = map_of
     [(''name'', ''''), (''description'', ''''), (''year'', ''''), (''rating'', ''''),
      (''manufacturer'', ''''), (''genre'', ''''), (''player'', ''''), (''story'', '''')]"

text \<open>
  \<open>re.search(r'\[([^\]]+)\]', line)\<close>: the leftmost \<open>[\<close> that is followed by at
  least one character other than \<open>]\<close> and then by \<open>]\<close>; the result is group 1.  The
  class \<open>[^\]]+\<close> is greedy and cannot give back a character to make room for the
  closing bracket, so the group is the whole run up to the first \<open>]\<close>.
\<close>

definition match_section_here :: "string \<Rightarrow> string option" where
  "match_section_here s =
     (case s of
        [] \<Rightarrow> None
      | c # rest \<Rightarrow>
          if c = CHR ''['' \<and> takeWhile (\<lambda>x. x \<noteq> CHR '']'') rest \<noteq> []
               \<and> dropWhile (\<lambda>x. x \<noteq> CHR '']'') rest \<noteq> []
          then Some (takeWhile (\<lambda>x. x \<noteq> CHR '']'') rest)
          else None)"

fun re_search_section :: "string \<Rightarrow> string option" where
  "re_search_section [] = None"
| "re_search_section (c # cs) =
     (case match_section_here (c # cs) of
        Some g \<Rightarrow> Some g
      | None \<Rightarrow> re_search_section cs)"

text \<open>The \<open>if\<close>/\<open>elif\<close> chain on the field name; the final \<open>else\<close> raises \<open>NameError\<close>.\<close>

definition tempest_field ::
    "string \<Rightarrow> string \<Rightarrow> string dict \<Rightarrow> py_error + string dict" where
  "tempest_field field_name field_value game =
     (if field_name = ''Publisher'' then Inr (game(''manufacturer'' \<mapsto> field_value))
      else if field_name = ''Developer'' then Inr (game(''dev'' \<mapsto> field_value))
      else if field_name = ''Released'' then Inr (game(''year'' \<mapsto> field_value))
      else if field_name = ''Systems'' then Inr game
      else if field_name = ''Genre'' then Inr (game(''genre'' \<mapsto> field_value))
      else if field_name = ''Perspective'' then Inr game
      else if field_name = ''Score'' then Inr (game(''score'' \<mapsto> field_value))
      else if field_name = ''Controls'' then Inr game
      else if field_name = ''Players'' then Inr (game(''player'' \<mapsto> field_value))
      else if field_name = ''Esrb'' then Inr (game(''rating'' \<mapsto> field_value))
      else if field_name = ''Url'' then Inr game
      else if field_name = ''Description'' then Inr (game(''story'' \<mapsto> field_value))
      else if field_name = ''Goodname'' then Inr game
      else if field_name = ''NoIntro'' then Inr game
      else if field_name = ''Tosec'' then Inr game
      else Inl NameError)"

text \<open>
  The local variables of the loop.  \<open>game_key\<close> and \<open>game\<close> are unbound in the source
  until the first section header is seen; they are read only when \<open>read_status\<close>
  is 1, after they have been assigned, so their initial values here are never used.
\<close>

record tempest_state =
  games :: "string dict dict"
  read_status :: nat
  game_key :: string
  game :: "string dict"

definition tempest_init :: tempest_state where
  "tempest_init = \<lparr>games = Map.empty, read_status = 0, game_key = '''', game = Map.empty\<rparr>"

text \<open>
  The body of the loop for one line of the file.  The last \<open>else\<close> of the source
  raises \<open>CriticalError\<close>, a name bound nowhere, hence \<open>NameError\<close>.
\<close>

definition tempest_line :: "tempest_state \<Rightarrow> string \<Rightarrow> py_error + tempest_state" where
  "tempest_line st file_line =
     (let stripped_line = decode_replace (str_strip file_line) in
      if read_status st = 0 then
        (case re_search_section stripped_line of
           Some m \<Rightarrow>
             Inr (st\<lparr>game := audit_new_rom_GameDB(''name'' \<mapsto> m), game_key := m,
                     read_status := 1\<rparr>)
         | None \<Rightarrow> Inr st)
      else if read_status st = 1 then
        (let line_list = str_split CHR ''='' stripped_line in
         if length line_list = 1 then
           Inr (st\<lparr>read_status := 0, games := (games st)(game_key st \<mapsto> game st)\<rparr>)
         else
           (case line_list of
              field_name # field_value # others \<Rightarrow>
                (case tempest_field field_name field_value (game st) of
                   Inl e \<Rightarrow> Inl e
                 | Inr g \<Rightarrow> Inr (st\<lparr>game := g\<rparr>))
            | _ \<Rightarrow> Inl IndexError))
      else Inl NameError)"

fun tempest_lines :: "tempest_state \<Rightarrow> string list \<Rightarrow> py_error + tempest_state" where
  "tempest_lines st [] = Inr st"
| "tempest_lines st (file_line # rest) =
     (case tempest_line st file_line of
        Inl e \<Rightarrow> Inl e
      | Inr st' \<Rightarrow> tempest_lines st' rest)"

text \<open>
  The file: \<open>exists()\<close>, and the outcome of \<open>open\<close> followed by iteration, which is
  the list of lines or an exception.  The handler of \<open>IOError\<close> formats its message
  from a name \<open>filename\<close> that is bound nowhere, so it raises \<open>NameError\<close>.
\<close>

record ini_file =
  ini_exists :: bool
  ini_open :: "py_error + string list"

definition audit_load_Tempest_INI :: "ini_file \<Rightarrow> py_error + string dict dict" where
  "audit_load_Tempest_INI file_FN =
     (if \<not> ini_exists file_FN then Inr Map.empty
      else case ini_open file_FN of
             Inl e \<Rightarrow> (if e = IOError then Inl NameError else Inl e)
           | Inr file_lines \<Rightarrow>
               (case tempest_lines tempest_init file_lines of
                  Inl e \<Rightarrow> Inl e
                | Inr st \<Rightarrow> Inr (games st)))"

text \<open>
  The field name the loop reads from a line: the text before the first \<open>=\<close> of the
  stripped line, when the line contains \<open>=\<close>.
\<close>

definition tempest_field_name :: "string \<Rightarrow> string option" where
  "tempest_field_name file_line =
     (case str_split CHR ''='' (decode_replace (str_strip file_line)) of
        field_name # field_value # others \<Rightarrow> Some field_name
      | _ \<Rightarrow> None)"

text \<open>The field names handled by the chain, in the order of the source.\<close>

definition tempest_allowed :: "string list" where
  "tempest_allowed =
     [''Publisher'', ''Developer'', ''Released'', ''Systems'', ''Genre'', ''Perspective'',
      ''Score'', ''Controls'', ''Players'', ''Esrb'', ''Url'', ''Description'', ''Goodname'',
      ''NoIntro'', ''Tosec'']"

subsection \<open>Example inputs\<close>

definition lb_example_good :: xml_element where
  "lb_example_good = Element ''Game'' [] None [Element ''Name'' [] (Some ''Doom'') []]"

definition lb_example_bad :: xml_element where
  "lb_example_bad = Element ''Game'' [] None
     [Element ''Name'' [] (Some ''Quake'') [], Element ''Rating'' [] (Some ''5'') []]"

definition lb_example_later :: xml_element where
  "lb_example_later = Element ''Game'' [] None [Element ''Name'' [] (Some ''Hexen'') []]"

definition lb_example_file :: xml_file where
  "lb_example_file =
     \<lparr>file_exists = True,
      file_readXml = Inr (Element ''LaunchBox'' [] None
         [lb_example_good, lb_example_bad, lb_example_later])\<rparr>"

definition tempest_example_open :: ini_file where
  "tempest_example_open =
     \<lparr>ini_exists = True,
      ini_open = Inr [''[Doom]'' @ [CHR 0x0A], ''Publisher=id Software'' @ [CHR 0x0A]]\<rparr>"

definition tempest_example_bad :: ini_file where
  "tempest_example_bad =
     \<lparr>ini_exists = True,
      ini_open = Inr [''[Doom]'' @ [CHR 0x0A], ''Engine=idTech'' @ [CHR 0x0A], [CHR 0x0A]]\<rparr>"

definition tempest_example_padded :: ini_file where
  "tempest_example_padded =
     \<lparr>ini_exists = True,
      ini_open = Inr [''[Doom]'' @ [CHR 0x0A], ''Publisher = Nintendo'' @ [CHR 0x0A]]\<rparr>"

section \<open>Multi-disc ROM names (utils.py)\<close>

subsection \<open>The tokenizer\<close>

text \<open>
  The pattern of \<open>text_get_ROM_basename_tokens\<close> is the alternation
  \<open>\[.+?\] | \(.+?\) | \{.+?\} | [^\[\(\{]+\<close>.

  A group \<open>\[.+?\]\<close> at the start of \<open>s\<close>: the opening character, then \<open>.+?\<close>, which
  takes one character and lazily more, none of them a newline (\<open>.\<close> does not match
  it), up to the first closing character that follows.  The result is the matched
  text and the rest of the input.
\<close>

definition re_group :: "char \<Rightarrow> char \<Rightarrow> string \<Rightarrow> (string \<times> string) option" where
  "re_group opener closer s =
     (case s of
        c # x # r \<Rightarrow>
          if c = opener \<and> x \<noteq> ch_newline then
            (case dropWhile (\<lambda>y. y \<noteq> closer \<and> y \<noteq> ch_newline) r of
               [] \<Rightarrow> None
             | y # r' \<Rightarrow>
                 if y = closer
                 then Some (c # x # takeWhile (\<lambda>y. y \<noteq> closer \<and> y \<noteq> ch_newline) r @ [closer], r')
                 else None)
          else None
      | _ \<Rightarrow> None)"

text \<open>The last alternative \<open>[^\[\(\{]+\<close>: a longest non-empty run without opening characters.\<close>

definition is_opener :: "char \<Rightarrow> bool" where
  "is_opener c = (c = CHR ''['' \<or> c = CHR ''('' \<or> c = CHR ''{'')"

definition re_run :: "string \<Rightarrow> (string \<times> string) option" where
  "re_run s =
     (if takeWhile (\<lambda>c. \<not> is_opener c) s = [] then None
      else Some (takeWhile (\<lambda>c. \<not> is_opener c) s, dropWhile (\<lambda>c. \<not> is_opener c) s))"

text \<open>The alternation tries its branches in order at the start of \<open>s\<close>.\<close>

definition match_token :: "string \<Rightarrow> (string \<times> string) option" where
  "match_token s =
     (case re_group CHR ''['' CHR '']'' s of
        Some m \<Rightarrow> Some m
      | None \<Rightarrow>
          (case re_group CHR ''('' CHR '')'' s of
             Some m \<Rightarrow> Some m
           | None \<Rightarrow>
               (case re_group CHR ''{'' CHR ''}'' s of
                  Some m \<Rightarrow> Some m
                | None \<Rightarrow> re_run s)))"

lemma re_group_splits:
  "re_group opener closer s = Some (t, r) \<Longrightarrow> s = t @ r \<and> t \<noteq> []"
proof -
  assume a: "re_group opener closer s = Some (t, r)"
  then obtain c x r0 where s: "s = c # x # r0"
    by (cases s rule: list.exhaust[case_names Nil Cons]; cases "tl s")
       (auto simp: re_group_def)
  let ?P = "\<lambda>y. y \<noteq> closer \<and> y \<noteq> ch_newline"
  from a s obtain r' where d: "dropWhile ?P r0 = closer # r'"
      and t: "t = c # x # takeWhile ?P r0 @ [closer]" and r: "r = r'"
    by (auto simp: re_group_def split: if_splits list.splits)
  have "r0 = takeWhile ?P r0 @ dropWhile ?P r0" by simp
  with d have "r0 = takeWhile ?P r0 @ closer # r'" by simp
  with s t r show ?thesis by simp
qed

lemma match_token_splits:
  "match_token s = Some (t, r) \<Longrightarrow> s = t @ r \<and> t \<noteq> []"
  by (auto simp: match_token_def re_run_def split: option.splits if_splits
      dest: re_group_splits)

text \<open>
  \<open>re.findall\<close> scans the string from left to right.  Where the pattern matches, the
  match is collected and the scan continues after it; where it does not, the scan
  moves on by one character, which then belongs to no match.  The scan is recorded
  with both kinds of step; \<open>re_findall\<close> keeps the matches.
\<close>

datatype scan_item = Token string | Skipped char

function re_scan :: "string \<Rightarrow> scan_item list" where
  "re_scan s =
     (if s = [] then []
      else (case match_token s of
              Some (t, r) \<Rightarrow> Token t # re_scan r
            | None \<Rightarrow> Skipped (hd s) # re_scan (tl s)))"
  by pat_completeness auto
termination
proof (relation "measure length")
  show "wf (measure length)" by simp
next
  fix s :: string and x2 t r
  assume "s \<noteq> []" "match_token s = Some x2" "(t, r) = x2"
  then have "s = t @ r \<and> t \<noteq> []" using match_token_splits by metis
  then show "(r, s) \<in> measure length" by (cases t) auto
next
  fix s :: string
  assume "s \<noteq> []"
  then show "(tl s, s) \<in> measure length" by (cases s) auto
qed

fun item_text :: "scan_item \<Rightarrow> string" where
  "item_text (Token t) = t"
| "item_text (Skipped c) = [c]"

fun tokens_of :: "scan_item list \<Rightarrow> string list" where
  "tokens_of [] = []"
| "tokens_of (Token t # items) = t # tokens_of items"
| "tokens_of (Skipped c # items) = tokens_of items"

definition re_findall :: "string \<Rightarrow> string list" where
  "re_findall s = tokens_of (re_scan s)"

text \<open>
  \<open>text_get_ROM_basename_tokens\<close>: the raw tokens are stripped, the empty ones and
  then the tokens \<open>-\<close> are dropped.
\<close>

definition tokens_raw :: "string \<Rightarrow> string list" where
  "tokens_raw basename_str = re_findall basename_str"

definition text_get_ROM_basename_tokens :: "string \<Rightarrow> string list" where
  "text_get_ROM_basename_tokens basename_str =
     (let tokens_strip = map unicode_strip (tokens_raw basename_str);
          tokens_clean = filter (\<lambda>token. token \<noteq> []) tokens_strip;
          tokens = filter (\<lambda>token. token \<noteq> ''-'') tokens_clean
      in tokens)"

declare re_scan.simps [simp del]

subsection \<open>File names\<close>

text \<open>
  \<open>FileName\<close> is \<open>NewFileName\<close>.  Its constructor stores the path with every
  backslash turned into a slash (the translation of \<open>special://\<close> paths by Kodi and
  the directory flag are left out).  The path functions are those of \<open>posixpath\<close>.
\<close>

record file_name =
  path_str :: string

definition FileName :: "string \<Rightarrow> file_name" where
  "FileName p = \<lparr>path_str = str_replace [CHR 0x5C] ''/'' p\<rparr>"

definition os_path_basename :: "string \<Rightarrow> string" where
  "os_path_basename p = rev (takeWhile (\<lambda>c. c \<noteq> CHR ''/'') (rev p))"

text \<open>
  \<open>os.path.splitext\<close>: the extension starts at the last dot of the last path
  component, unless that component has no dot or only dots before it.
\<close>

definition os_path_splitext :: "string \<Rightarrow> string \<times> string" where
  "os_path_splitext p =
     (let base = os_path_basename p;
          ext = CHR ''.'' # rev (takeWhile (\<lambda>c. c \<noteq> CHR ''.'') (rev base));
          stem = take (length base - length ext) base
      in if CHR ''.'' \<in> set base \<and> filter (\<lambda>c. c \<noteq> CHR ''.'') stem \<noteq> []
         then (take (length p - length ext) p, ext)
         else (p, []))"

definition getBase :: "file_name \<Rightarrow> string" where
  "getBase fn = os_path_basename (path_str fn)"

definition getBaseNoExt :: "file_name \<Rightarrow> string" where
  "getBaseNoExt fn = fst (os_path_splitext (os_path_basename (path_str fn)))"

definition getExt :: "file_name \<Rightarrow> string" where
  "getExt fn = snd (os_path_splitext (path_str fn))"

subsection \<open>Disc markers\<close>

definition is_digit :: "char \<Rightarrow> bool" where
  "is_digit c = (c \<in> set ''0123456789'')"

text \<open>
  \<open>re.match(r'\(Dis[ck] ([0-9]+)\)', token)\<close>, anchored at the start of the token
  only; the result is group 1.  The digits are matched greedily and are followed by
  a character that is not a digit, so group 1 is the whole run of digits.
\<close>

definition re_match_redump :: "string \<Rightarrow> string option" where
  "re_match_redump token =
     (case token of
        c1 # c2 # c3 # c4 # c5 # c6 # rest \<Rightarrow>
          if [c1, c2, c3, c4] = ''(Dis'' \<and> (c5 = CHR ''c'' \<or> c5 = CHR ''k'') \<and> c6 = CHR '' ''
             \<and> takeWhile is_digit rest \<noteq> []
             \<and> prefix '')'' (dropWhile is_digit rest)
          then Some (takeWhile is_digit rest)
          else None
      | _ \<Rightarrow> None)"

text \<open>\<open>re.match(r'\(Dis[ck] ([0-9]+) of ([0-9]+)\)', token)\<close>; the result is group 1.\<close>

definition re_match_tosec :: "string \<Rightarrow> string option" where
  "re_match_tosec token =
     (case token of
        c1 # c2 # c3 # c4 # c5 # c6 # rest \<Rightarrow>
          if [c1, c2, c3, c4] = ''(Dis'' \<and> (c5 = CHR ''c'' \<or> c5 = CHR ''k'') \<and> c6 = CHR '' ''
             \<and> takeWhile is_digit rest \<noteq> []
             \<and> prefix '' of '' (dropWhile is_digit rest)
             \<and> takeWhile is_digit (drop 4 (dropWhile is_digit rest)) \<noteq> []
             \<and> prefix '')'' (dropWhile is_digit (drop 4 (dropWhile is_digit rest)))
          then Some (takeWhile is_digit rest)
          else None
      | _ \<Rightarrow> None)"

text \<open>\<open>int(s)\<close> for a non-empty string of ASCII digits.\<close>

definition int_of_digits :: "string \<Rightarrow> int" where
  "int_of_digits s = foldl (\<lambda>n c. 10 * n + (of_char c - 48)) 0 s"

subsection \<open>Multi-disc detection\<close>

record MultiDiscInfo =
  ROM_FN :: file_name
  isMultiDisc :: bool
  setName :: string
  discName :: string
  extension :: string
  order :: int

definition MultiDiscInfo_init :: "file_name \<Rightarrow> MultiDiscInfo" where
  "MultiDiscInfo_init fn =
     \<lparr>ROM_FN = fn, isMultiDisc = False, setName = '''', discName = getBase fn,
      extension = getExt fn, order = 0\<rparr>"

text \<open>
  The loop over \<open>enumerate(tokens)\<close>: it stops at the first token matched by the
  Redump pattern or else by the TOSEC pattern, with the index of the token and
  group 1 of the match that \<open>matchObj\<close> holds at the \<open>break\<close>.
\<close>

fun multidisc_scan :: "string list \<Rightarrow> nat \<Rightarrow> (nat \<times> string) option" where
  "multidisc_scan [] index = None"
| "multidisc_scan (token # rest) index =
     (case re_match_redump token of
        Some g \<Rightarrow> Some (index, g)
      | None \<Rightarrow>
          (case re_match_tosec token of
             Some g \<Rightarrow> Some (index, g)
           | None \<Rightarrow> multidisc_scan rest (Suc index)))"

text \<open>
  The object \<open>MDSet\<close> as it stands after the assignments to \<open>isMultiDisc\<close>,
  \<open>setName\<close> and \<open>order\<close>, before the debug messages are formatted.
\<close>

definition multidisc_fields :: "file_name \<Rightarrow> MultiDiscInfo" where
  "multidisc_fields fn =
     (let MDSet = MultiDiscInfo_init fn;
          tokens = text_get_ROM_basename_tokens (getBaseNoExt fn)
      in case multidisc_scan tokens 0 of
           None \<Rightarrow> MDSet
         | Some (index, group1) \<Rightarrow>
             (let tokens_idx = remove1 index [0..<length tokens];
                  tokens_mdisc = map (\<lambda>x. tokens ! x) tokens_idx
              in MDSet\<lparr>isMultiDisc := True,
                       setName := str_join '' '' tokens_mdisc @ extension MDSet,
                       order := int_of_digits group1\<rparr>))"

text \<open>
  When a marker was found, the first debug message is formatted from
  \<open>ROM_FN.getBase_noext()\<close>.  No file name class of utils.py has a method of that
  name (the method is \<open>getBaseNoExt\<close>, as the first line of the function calls it),
  so the call raises \<open>AttributeError\<close> before \<open>MDSet\<close> is returned.
\<close>

definition text_get_multidisc_info :: "file_name \<Rightarrow> py_error + MultiDiscInfo" where
  "text_get_multidisc_info fn =
     (let MDSet = multidisc_fields fn
      in if isMultiDisc MDSet then Inl AttributeError else Inr MDSet)"

section \<open>Checksums (utils.py)\<close>

subsection \<open>Bytes and hexadecimal text\<close>

text \<open>
  File contents and digests are byte strings: lists of 8-bit characters.  A list is
  cut into pieces of \<open>n\<close> elements, the last one possibly shorter.
\<close>

fun chunks :: "nat \<Rightarrow> 'a list \<Rightarrow> 'a list list" where
  "chunks n xs = (if n = 0 \<or> xs = [] then [] else take n xs # chunks n (drop n xs))"

declare chunks.simps [simp del]

definition hex_digit_lower :: "nat \<Rightarrow> char" where
  "hex_digit_lower d = ''0123456789abcdef'' ! (d mod 16)"

definition hex_digit_upper :: "nat \<Rightarrow> char" where
  "hex_digit_upper d = ''0123456789ABCDEF'' ! (d mod 16)"

text \<open>\<open>hexdigest()\<close> of a hash object: two lowercase hexadecimal digits per byte.\<close>

definition hexdigest :: "string \<Rightarrow> string" where
  "hexdigest digest =
     concat (map (\<lambda>c. [hex_digit_lower (of_char c div 16), hex_digit_lower (of_char c mod 16)])
                 digest)"

text \<open>\<open>str.upper()\<close> on ASCII text.\<close>

definition char_upper :: "char \<Rightarrow> char" where
  "char_upper c =
     (if 97 \<le> (of_char c :: nat) \<and> (of_char c :: nat) \<le> 122
      then char_of ((of_char c :: nat) - 32) else c)"

definition str_upper :: "string \<Rightarrow> string" where
  "str_upper s = map char_upper s"

text \<open>
  \<open>'{:08X}'.format(n)\<close>: the number in uppercase hexadecimal, filled with zeros on
  the left up to eight characters, the sign of a negative number counted in.
\<close>

function hex_upper :: "int \<Rightarrow> string" where
  "hex_upper n =
     (if n < 16 then [hex_digit_upper (nat n)]
      else hex_upper (n div 16) @ [hex_digit_upper (nat (n mod 16))])"
  by pat_completeness auto
termination
  by (relation "measure nat") auto

declare hex_upper.simps [simp del]

definition format_08X :: "int \<Rightarrow> string" where
  "format_08X n =
     (if n < 0
      then CHR ''-'' # replicate (7 - length (hex_upper (- n))) CHR ''0'' @ hex_upper (- n)
      else replicate (8 - length (hex_upper n)) CHR ''0'' @ hex_upper n)"

subsection \<open>The library functions: CRC-32, MD5, SHA-1\<close>

text \<open>
  \<open>zlib.crc32(data, value)\<close> continues the CRC-32 (reflected polynomial
  \<open>0xEDB88320\<close>) from the running value; Python 2 returns it as a signed 32-bit
  integer.
\<close>

definition crc32_byte :: "32 word \<Rightarrow> char \<Rightarrow> 32 word" where
  "crc32_byte crc b =
     ((\<lambda>x. if bit x 0 then drop_bit 1 x XOR 0xEDB88320 else drop_bit 1 x) ^^ 8)
        (crc XOR of_char b)"

definition zlib_crc32 :: "string \<Rightarrow> int \<Rightarrow> int" where
  "zlib_crc32 data v = sint (NOT (foldl crc32_byte (NOT (word_of_int v)) data))"

definition rotl32 :: "32 word \<Rightarrow> nat \<Rightarrow> 32 word" where
  "rotl32 x n = push_bit n x OR drop_bit (32 - n) x"

text \<open>A 32-bit word from its bytes, and back, in either byte order.\<close>

definition word_le :: "string \<Rightarrow> 32 word" where
  "word_le bs = foldr (\<lambda>c w. of_char c + push_bit 8 w) bs 0"

definition word_be :: "string \<Rightarrow> 32 word" where
  "word_be bs = foldl (\<lambda>w c. push_bit 8 w + of_char c) 0 bs"

definition bytes_le :: "nat \<Rightarrow> int \<Rightarrow> string" where
  "bytes_le k n = map (\<lambda>i. char_of (n div 256 ^ i)) [0..<k]"

definition bytes_be :: "nat \<Rightarrow> int \<Rightarrow> string" where
  "bytes_be k n = rev (bytes_le k n)"

text \<open>
  \<open>hashlib.md5\<close> is MD5 (RFC 1321); \<open>hashlib_md5\<close> is the digest of a whole message.  The message is followed by the byte \<open>0x80\<close>, by zero bytes up
  to 56 modulo 64, and by its length in bits as 8 bytes, low byte first.
\<close>

definition md5_pad :: "string \<Rightarrow> string" where
  "md5_pad msg =
     msg @ [CHR 0x80] @ replicate ((119 - length msg mod 64) mod 64) (CHR 0x00)
         @ bytes_le 8 (8 * int (length msg))"

definition md5_K :: "32 word list" where
  "md5_K =
     [
      0xd76aa478, 0xe8c7b756, 0x242070db, 0xc1bdceee,
      0xf57c0faf, 0x4787c62a, 0xa8304613, 0xfd469501,
      0x698098d8, 0x8b44f7af, 0xffff5bb1, 0x895cd7be,
      0x6b901122, 0xfd987193, 0xa679438e, 0x49b40821,
      0xf61e2562, 0xc040b340, 0x265e5a51, 0xe9b6c7aa,
      0xd62f105d, 0x02441453, 0xd8a1e681, 0xe7d3fbc8,
      0x21e1cde6, 0xc33707d6, 0xf4d50d87, 0x455a14ed,
      0xa9e3e905, 0xfcefa3f8, 0x676f02d9, 0x8d2a4c8a,
      0xfffa3942, 0x8771f681, 0x6d9d6122, 0xfde5380c,
      0xa4beea44, 0x4bdecfa9, 0xf6bb4b60, 0xbebfbc70,
      0x289b7ec6, 0xeaa127fa, 0xd4ef3085, 0x04881d05,
      0xd9d4d039, 0xe6db99e5, 0x1fa27cf8, 0xc4ac5665,
      0xf4292244, 0x432aff97, 0xab9423a7, 0xfc93a039,
      0x655b59c3, 0x8f0ccc92, 0xffeff47d, 0x85845dd1,
      0x6fa87e4f, 0xfe2ce6e0, 0xa3014314, 0x4e0811a1,
      0xf7537e82, 0xbd3af235, 0x2ad7d2bb, 0xeb86d391]"

definition md5_s :: "nat list" where
  "md5_s =
     [
      7, 12, 17, 22, 7, 12, 17, 22, 7, 12, 17, 22, 7, 12, 17, 22,
      5, 9, 14, 20, 5, 9, 14, 20, 5, 9, 14, 20, 5, 9, 14, 20,
      4, 11, 16, 23, 4, 11, 16, 23, 4, 11, 16, 23, 4, 11, 16, 23,
      6, 10, 15, 21, 6, 10, 15, 21, 6, 10, 15, 21, 6, 10, 15, 21]"

type_synonym md5_state = "32 word \<times> 32 word \<times> 32 word \<times> 32 word"

fun md5_step :: "32 word list \<Rightarrow> md5_state \<Rightarrow> nat \<Rightarrow> md5_state" where
  "md5_step M (A, B, C, D) i =
     (let F = (if i < 16 then (B AND C) OR (NOT B AND D)
               else if i < 32 then (D AND B) OR (NOT D AND C)
               else if i < 48 then B XOR C XOR D
               else C XOR (B OR NOT D));
          g = (if i < 16 then i
               else if i < 32 then (5 * i + 1) mod 16
               else if i < 48 then (3 * i + 5) mod 16
               else (7 * i) mod 16)
      in (D, B + rotl32 (F + A + md5_K ! i + M ! g) (md5_s ! i), B, C))"

fun md5_block :: "md5_state \<Rightarrow> string \<Rightarrow> md5_state" where
  "md5_block (a0, b0, c0, d0) block =
     (case foldl (md5_step (map word_le (chunks 4 block))) (a0, b0, c0, d0) [0..<64] of
        (A, B, C, D) \<Rightarrow> (a0 + A, b0 + B, c0 + C, d0 + D))"

definition hashlib_md5 :: "string \<Rightarrow> string" where
  "hashlib_md5 msg =
     (case foldl md5_block (0x67452301, 0xefcdab89, 0x98badcfe, 0x10325476)
                 (chunks 64 (md5_pad msg)) of
        (a, b, c, d) \<Rightarrow> concat (map (\<lambda>w. bytes_le 4 (uint w)) [a, b, c, d]))"

text \<open>
  \<open>hashlib.sha1\<close> is SHA-1 (FIPS 180).  Padding as for MD5, but with the length high byte first, and
  words high byte first.
\<close>

definition sha1_pad :: "string \<Rightarrow> string" where
  "sha1_pad msg =
     msg @ [CHR 0x80] @ replicate ((119 - length msg mod 64) mod 64) (CHR 0x00)
         @ bytes_be 8 (8 * int (length msg))"

fun sha1_schedule :: "nat \<Rightarrow> 32 word list \<Rightarrow> 32 word list" where
  "sha1_schedule 0 W = W"
| "sha1_schedule (Suc k) W =
     sha1_schedule k
       (W @ [rotl32 (W ! (length W - 3) XOR W ! (length W - 8) XOR W ! (length W - 14)
                     XOR W ! (length W - 16)) 1])"

type_synonym sha1_state = "32 word \<times> 32 word \<times> 32 word \<times> 32 word \<times> 32 word"

fun sha1_step :: "sha1_state \<Rightarrow> nat \<times> 32 word \<Rightarrow> sha1_state" where
  "sha1_step (a, b, c, d, e) (t, w) =
     (let f = (if t < 20 then (b AND c) OR (NOT b AND d)
               else if t < 40 then b XOR c XOR d
               else if t < 60 then (b AND c) OR (b AND d) OR (c AND d)
               else b XOR c XOR d);
          k = (if t < 20 then 0x5A827999
               else if t < 40 then 0x6ED9EBA1
               else if t < 60 then 0x8F1BBCDC
               else 0xCA62C1D6)
      in (rotl32 a 5 + f + e + k + w, a, rotl32 b 30, c, d))"

fun sha1_block :: "sha1_state \<Rightarrow> string \<Rightarrow> sha1_state" where
  "sha1_block (h0, h1, h2, h3, h4) block =
     (case foldl sha1_step (h0, h1, h2, h3, h4)
             (zip [0..<80] (sha1_schedule 64 (map word_be (chunks 4 block)))) of
        (a, b, c, d, e) \<Rightarrow> (h0 + a, h1 + b, h2 + c, h3 + d, h4 + e))"

definition hashlib_sha1 :: "string \<Rightarrow> string" where
  "hashlib_sha1 msg =
     (case foldl sha1_block (0x67452301, 0xEFCDAB89, 0x98BADCFE, 0x10325476, 0xC3D2E1F0)
                 (chunks 64 (sha1_pad msg)) of
        (a, b, c, d, e) \<Rightarrow> concat (map (\<lambda>w. bytes_be 4 (uint w)) [a, b, c, d, e]))"

subsection \<open>Reading the file and computing the checksums\<close>

text \<open>
  What the operating system does for the path: whether \<open>open\<close> raises; the bytes of
  the file; whether one of the \<open>read\<close> calls raises, and which (counted from 0);
  and the outcome of \<open>os.path.getsize\<close>.
\<close>

record os_file =
  open_raises :: "py_error option"
  content :: string
  read_raises_at :: "nat option"
  getsize :: "py_error + nat"

text \<open>The open file object: the bytes not yet read, and the countdown to a failing read.\<close>

record file_object =
  unread :: string
  raises_at :: "nat option"

definition file_read :: "file_object \<Rightarrow> nat \<Rightarrow> py_error + string \<times> file_object" where
  "file_read f n =
     (case raises_at f of
        None \<Rightarrow> Inr (take n (unread f), f\<lparr>unread := drop n (unread f)\<rparr>)
      | Some 0 \<Rightarrow> Inl IOError
      | Some (Suc k) \<Rightarrow>
          Inr (take n (unread f), f\<lparr>unread := drop n (unread f), raises_at := Some k\<rparr>))"

text \<open>
  The loop of \<open>misc_calculate_checksums\<close> over the generator
  \<open>misc_read_in_chunks\<close>: read 8192 bytes; stop at an empty read; otherwise update
  the running CRC and the two hash objects.  A hash object is represented by the
  bytes it has been fed.
\<close>

function checksum_pieces ::
    "file_object \<Rightarrow> int \<Rightarrow> string \<Rightarrow> string \<Rightarrow> py_error + int \<times> string \<times> string" where
  "checksum_pieces f crc_prev md5 sha1 =
     (case file_read f 8192 of
        Inl e \<Rightarrow> Inl e
      | Inr (piece, f') \<Rightarrow>
          if piece = [] then Inr (crc_prev, md5, sha1)
          else checksum_pieces f' (zlib_crc32 piece crc_prev) (md5 @ piece) (sha1 @ piece))"
  by pat_completeness auto
termination
proof (relation "measure (\<lambda>(f, crc_prev, md5, sha1). length (unread f))")
  show "wf (measure (\<lambda>(f, crc_prev, md5, sha1). length (unread f)))" by simp
next
  fix f :: file_object and crc_prev :: int and md5 sha1 :: string and x2 piece f'
  assume "file_read f 8192 = Inr x2" "(piece, f') = x2" "piece \<noteq> []"
  then have "unread f \<noteq> [] \<and> unread f' = drop 8192 (unread f)"
    by (auto simp: file_read_def split: option.splits nat.splits)
  then show "((f', zlib_crc32 piece crc_prev, md5 @ piece, sha1 @ piece), f, crc_prev, md5, sha1)
      \<in> measure (\<lambda>(f, crc_prev, md5, sha1). length (unread f))"
    by (cases "unread f") auto
qed

declare checksum_pieces.simps [simp del]

text \<open>The dictionary returned on success.\<close>

record checksums =
  ck_crc :: string
  ck_md5 :: string
  ck_sha1 :: string
  ck_size :: nat

text \<open>The body of the \<open>try\<close> statement.\<close>

definition checksums_try :: "os_file \<Rightarrow> py_error + string \<times> string \<times> string \<times> nat" where
  "checksums_try file =
     (case open_raises file of
        Some e \<Rightarrow> Inl e
      | None \<Rightarrow>
          (case checksum_pieces \<lparr>unread = content file, raises_at = read_raises_at file\<rparr>
                  0 [] [] of
             Inl e \<Rightarrow> Inl e
           | Inr (crc_prev, md5, sha1) \<Rightarrow>
               (let crc_digest = format_08X (crc_prev AND 0xFFFFFFFF);
                    md5_digest = hexdigest (hashlib_md5 md5);
                    sha1_digest = hexdigest (hashlib_sha1 sha1)
                in case getsize file of
                     Inl e \<Rightarrow> Inl e
                   | Inr n \<Rightarrow> Inr (crc_digest, md5_digest, sha1_digest, n))))"

text \<open>
  The bare \<open>except:\<close> turns every exception of the body into the result \<open>None\<close>.
  The result type keeps a place for a propagated exception.
\<close>

definition misc_calculate_checksums :: "os_file \<Rightarrow> py_error + checksums option" where
  "misc_calculate_checksums file =
     (case checksums_try file of
        Inl e \<Rightarrow> Inr None
      | Inr (crc_digest, md5_digest, sha1_digest, n) \<Rightarrow>
          Inr (Some \<lparr>ck_crc = str_upper crc_digest, ck_md5 = str_upper md5_digest,
                      ck_sha1 = str_upper sha1_digest, ck_size = n\<rparr>))"

text \<open>
  An I/O failure during the computation: \<open>open\<close> raises, or a \<open>read\<close> call that the
  loop makes raises (the loop makes one call for each piece of the content and a
  last one that returns nothing), or \<open>getsize\<close> raises.
\<close>

definition io_failure :: "os_file \<Rightarrow> bool" where
  "io_failure file =
     (open_raises file \<noteq> None \<or>
      (case read_raises_at file of
         None \<Rightarrow> False
       | Some k \<Rightarrow> k \<le> length (chunks 8192 (content file))) \<or>
      isl (getsize file))"

definition hello_world_file :: os_file where
  "hello_world_file =
     \<lparr>open_raises = None, content = ''hello world'', read_raises_at = None,
      getsize = Inr 11\<rparr>"

definition unreadable_file :: os_file where
  "unreadable_file =
     \<lparr>open_raises = None, content = ''hello world'', read_raises_at = Some 0,
      getsize = Inr 11\<rparr>"

text \<open>The sixteen uppercase hexadecimal digits.\<close>

definition hex_upper_chars :: "char set" where
  "hex_upper_chars = set ''0123456789ABCDEF''"

section \<open>BIOS requirements of the Libretro cores (rom\_audit.py)\<close>

text \<open>
  One row of \<open>Libretro_BIOS_list\<close>.  The key \<open>size\<close> of the source is the field
  \<open>size_bytes\<close> here.
\<close>

record BiosEntry =
  filename :: string
  size_bytes :: nat
  md5 :: string
  mandatory :: bool
  cores :: "string list"

definition Libretro_BIOS_list :: "BiosEntry list" where
  "Libretro_BIOS_list =
     [
      \<lparr>filename = ''5200.rom'', size_bytes = 2048,
        md5 = ''281f20ea4320404ec820fb7ec0693b38'',
        mandatory = True, cores = [''atari800'']\<rparr>,
      \<lparr>filename = ''7800 BIOS (E).rom'', size_bytes = 16384,
        md5 = ''397bb566584be7b9764e7a68974c4263'',
        mandatory = True, cores = [''prosystem'']\<rparr>,
      \<lparr>filename = ''7800 BIOS (U).rom'', size_bytes = 4096,
        md5 = ''0763f1ffb006ddbe32e52d497ee848ae'',
        mandatory = True, cores = [''prosystem'']\<rparr>,
      \<lparr>filename = ''lynxboot.img'', size_bytes = 512,
        md5 = ''fcd403db69f54290b51035d82f835e7b'',
        mandatory = True, cores = [''mednafen_lynx'', ''handy'']\<rparr>,
      \<lparr>filename = ''o2rom.bin'', size_bytes = 1024,
        md5 = ''562d5ebf9e030a40d6fabfc2f33139fd'',
        mandatory = True, cores = [''o2em'']\<rparr>,
      \<lparr>filename = ''MSX.ROM'', size_bytes = 32768,
        md5 = ''aa95aea2563cd5ec0a0919b44cc17d47'',
        mandatory = True, cores = [''fmsx'']\<rparr>,
      \<lparr>filename = ''MSX2.ROM'', size_bytes = 32768,
        md5 = ''ec3a01c91f24fbddcbcab0ad301bc9ef'',
        mandatory = True, cores = [''fmsx'']\<rparr>,
      \<lparr>filename = ''MSX2EXT.ROM'', size_bytes = 16384,
        md5 = ''2183c2aff17cf4297bdb496de78c2e8a'',
        mandatory = True, cores = [''fmsx'']\<rparr>,
      \<lparr>filename = ''MSX2P.ROM'', size_bytes = 32768,
        md5 = ''6d8c0ca64e726c82a4b726e9b01cdf1e'',
        mandatory = True, cores = [''fmsx'']\<rparr>,
      \<lparr>filename = ''MSX2PEXT.ROM'', size_bytes = 16384,
        md5 = ''7c8243c71d8f143b2531f01afa6a05dc'',
        mandatory = True, cores = [''fmsx'']\<rparr>,
      \<lparr>filename = ''syscard3.pce'', size_bytes = 262144,
        md5 = ''38179df8f4ac870017db21ebcbf53114'',
        mandatory = True, cores = [''mednafen_pce_fast'', ''mednafen_supergrafx'']\<rparr>,
      \<lparr>filename = ''gecard.pce'', size_bytes = 32768,
        md5 = ''6d2cb14fc3e1f65ceb135633d1694122'',
        mandatory = True, cores = []\<rparr>,
      \<lparr>filename = ''pcfx.rom'', size_bytes = 1048576,
        md5 = ''08e36edbea28a017f79f8d4f7ff9b6d7'',
        mandatory = True, cores = [''mednafen_pcfx'']\<rparr>,
      \<lparr>filename = ''fx-scsi.rom'', size_bytes = 524288,
        md5 = ''430e9745f9235c515bc8e652d6ca3004'',
        mandatory = True, cores = []\<rparr>,
      \<lparr>filename = ''pcfxbios.bin'', size_bytes = 1048576,
        md5 = ''08e36edbea28a017f79f8d4f7ff9b6d7'',
        mandatory = True, cores = []\<rparr>,
      \<lparr>filename = ''pcfxv101.bin'', size_bytes = 1048576,
        md5 = ''e2fb7c7220e3a7838c2dd7e401a7f3d8'',
        mandatory = True, cores = []\<rparr>,
      \<lparr>filename = ''pcfxga.rom'', size_bytes = 1048576,
        md5 = ''5885bc9a64bf80d4530b9b9b978ff587'',
        mandatory = True, cores = []\<rparr>,
      \<lparr>filename = ''disksys.rom'', size_bytes = 8192,
        md5 = ''ca30b50f880eb660a320674ed365ef7a'',
        mandatory = True, cores = [''fceumm'', ''nestopia'']\<rparr>,
      \<lparr>filename = ''gc-ntsc-10.bin'', size_bytes = 2097152,
        md5 = ''fc924a7c879b661abc37cec4f018fdf3'',
        mandatory = True, cores = []\<rparr>,
      \<lparr>filename = ''gc-pal-10.bin'', size_bytes = 2097152,
        md5 = ''0cdda509e2da83c85bfe423dd87346cc'',
        mandatory = True, cores = []\<rparr>,
      \<lparr>filename = ''gc-pal-12.bin'', size_bytes = 2097152,
        md5 = ''db92574caab77a7ec99d4605fd6f2450'',
        mandatory = True, cores = []\<rparr>,
      \<lparr>filename = ''gc-dvd-20010608.bin'', size_bytes = 131072,
        md5 = ''561532ad496f644897952d2cef5bb431'',
        mandatory = True, cores = []\<rparr>,
      \<lparr>filename = ''gc-dvd-20010831.bin'', size_bytes = 131072,
        md5 = ''b953eb1a8fc9922b3f7051c1cdc451f1'',
        mandatory = True, cores = []\<rparr>,
      \<lparr>filename = ''gc-dvd-20020402.bin'', size_bytes = 131072,
        md5 = ''413154dd0e2c824c9b18b807fd03ec4e'',
        mandatory = True, cores = []\<rparr>,
      \<lparr>filename = ''gc-dvd-20020823.bin'', size_bytes = 131072,
        md5 = ''c03f6bbaf644eb9b3ee261dbe199eb42'',
        mandatory = True, cores = []\<rparr>,
      \<lparr>filename = ''64DD_IPL.bin'', size_bytes = 4194304,
        md5 = ''8d3d9f294b6e174bc7b1d2fd1c727530'',
        mandatory = True, cores = [''parallel'']\<rparr>,
      \<lparr>filename = ''bios7.bin'', size_bytes = 16384,
        md5 = ''df692a80a5b1bc90728bc3dfc76cd948'',
        mandatory = True, cores = []\<rparr>,
      \<lparr>filename = ''bios9.bin'', size_bytes = 4096,
        md5 = ''a392174eb3e572fed6447e956bde4b25'',
        mandatory = True, cores = []\<rparr>,
      \<lparr>filename = ''firmware.bin'', size_bytes = 262144,
        md5 = ''e45033d9b0fa6b0de071292bba7c9d13'',
        mandatory = True, cores = []\<rparr>,
      \<lparr>filename = ''bios.min'', size_bytes = 4096,
        md5 = ''1e4fb124a3a886865acb574f388c803d'',
        mandatory = True, cores = [''pokemini'']\<rparr>,
      \<lparr>filename = ''c52.bin'', size_bytes = 1024,
        md5 = ''f1071cdb0b6b10dde94d3bc8a6146387'',
        mandatory = True, cores = []\<rparr>,
      \<lparr>filename = ''g7400.bin'', size_bytes = 1024,
        md5 = ''c500ff71236068e0dc0d0603d265ae76'',
        mandatory = True, cores = []\<rparr>,
      \<lparr>filename = ''jopac.bin'', size_bytes = 1024,
        md5 = ''279008e4a0db2dc5f1c048853b033828'',
        mandatory = True, cores = []\<rparr>,
      \<lparr>filename = ''dc/dc_boot.bin'', size_bytes = 2097152,
        md5 = ''e10c53c2f8b90bab96ead2d368858623'',
        mandatory = True, cores = [''reicast'', ''redream'']\<rparr>,
      \<lparr>filename = ''dc/dc_flash.bin'', size_bytes = 131072,
        md5 = ''0a93f7940c455905bea6e392dfde92a4'',
        mandatory = True, cores = [''reicast'', ''redream'']\<rparr>,
      \<lparr>filename = ''areplay.bin'', size_bytes = 32768,
        md5 = ''a0028b3043f9d59ceeb03da5b073b30d'',
        mandatory = False, cores = [''genesis_plus_gx'']\<rparr>,
      \<lparr>filename = ''bios.gg'', size_bytes = 1024,
        md5 = ''672e104c3be3a238301aceffc3b23fd6'',
        mandatory = False, cores = [''genesis_plus_gx'']\<rparr>,
      \<lparr>filename = ''bios_CD_E.bin'', size_bytes = 131072,
        md5 = ''e66fa1dc5820d254611fdcdba0662372'',
        mandatory = True, cores = [''genesis_plus_gx'', ''picodrive'']\<rparr>,
      \<lparr>filename = ''bios_CD_U.bin'', size_bytes = 131072,
        md5 = ''2efd74e3232ff260e371b99f84024f7f'',
        mandatory = True, cores = [''genesis_plus_gx'', ''picodrive'']\<rparr>,
      \<lparr>filename = ''bios_CD_J.bin'', size_bytes = 131072,
        md5 = ''278a9397d192149e84e820ac621a8edd'',
        mandatory = True, cores = [''genesis_plus_gx'', ''picodrive'']\<rparr>,
      \<lparr>filename = ''bios_E.sms'', size_bytes = 8192,
        md5 = ''840481177270d5642a14ca71ee72844c'',
        mandatory = False, cores = [''genesis_plus_gx'']\<rparr>,
      \<lparr>filename = ''bios_J.sms'', size_bytes = 8192,
        md5 = ''24a519c53f67b00640d0048ef7089105'',
        mandatory = False, cores = [''genesis_plus_gx'']\<rparr>,
      \<lparr>filename = ''bios_U.sms'', size_bytes = 8192,
        md5 = ''840481177270d5642a14ca71ee72844c'',
        mandatory = False, cores = [''genesis_plus_gx'']\<rparr>,
      \<lparr>filename = ''ggenie.bin'', size_bytes = 32768,
        md5 = ''b5d5ff1147036b06944b4d2cac2dd1e1'',
        mandatory = False, cores = [''genesis_plus_gx'']\<rparr>,
      \<lparr>filename = ''sk.bin'', size_bytes = 2097152,
        md5 = ''4ea493ea4e9f6c9ebfccbdb15110367e'',
        mandatory = False, cores = [''genesis_plus_gx'']\<rparr>,
      \<lparr>filename = ''sk2chip.bin'', size_bytes = 262144,
        md5 = ''b4e76e416b887f4e7413ba76fa735f16'',
        mandatory = False, cores = []\<rparr>,
      \<lparr>filename = ''mpr-17933.bin'', size_bytes = 524288,
        md5 = ''3240872c70984b6cbfda1586cab68dbe'',
        mandatory = True, cores = [''mednafen_saturn'']\<rparr>,
      \<lparr>filename = ''mpr-18811-mx.ic1'', size_bytes = 2097152,
        md5 = ''255113ba943c92a54facd25a10fd780c'',
        mandatory = True, cores = [''mednafen_saturn'']\<rparr>,
      \<lparr>filename = ''mpr-19367-mx.ic1'', size_bytes = 2097152,
        md5 = ''1cd19988d1d72a3e7caa0b73234c96b4'',
        mandatory = True, cores = [''mednafen_saturn'']\<rparr>,
      \<lparr>filename = ''sega_101.bin'', size_bytes = 524288,
        md5 = ''85ec9ca47d8f6807718151cbcca8b964'',
        mandatory = True, cores = [''mednafen_saturn'']\<rparr>,
      \<lparr>filename = ''saturn_bios.bin'', size_bytes = 524288,
        md5 = ''af5828fdff51384f99b3c4926be27762'',
        mandatory = False, cores = []\<rparr>,
      \<lparr>filename = ''cgrom.dat'', size_bytes = 786432,
        md5 = ''cb0a5cfcf7247a7eab74bb2716260269'',
        mandatory = True, cores = []\<rparr>,
      \<lparr>filename = ''iplrom.dat'', size_bytes = 131072,
        md5 = ''7fd4caabac1d9169e289f0f7bbf71d8e'',
        mandatory = True, cores = []\<rparr>,
      \<lparr>filename = ''scph5500.bin'', size_bytes = 524288,
        md5 = ''8dd7d5296a650fac7319bce665a6a53c'',
        mandatory = True, cores = [''mednafen_psx'', ''mednafen_psx_hw'', ''pcsx_rearmed'']\<rparr>,
      \<lparr>filename = ''scph5501.bin'', size_bytes = 524288,
        md5 = ''490f666e1afb15b7362b406ed1cea246'',
        mandatory = True, cores = [''mednafen_psx'', ''mednafen_psx_hw'', ''pcsx_rearmed'']\<rparr>,
      \<lparr>filename = ''scph5502.bin'', size_bytes = 524288,
        md5 = ''32736f17079d0b2b7024407c39bd3050'',
        mandatory = True, cores = [''mednafen_psx'', ''mednafen_psx_hw'', ''pcsx_rearmed'']\<rparr>,
      \<lparr>filename = ''ppge_atlas.zim'', size_bytes = 784968,
        md5 = ''a93fc411c1ce7d001a2a812643c70085'',
        mandatory = True, cores = [''ppsspp'', ''psp1'']\<rparr>,
      \<lparr>filename = ''goldstar.bin'', size_bytes = 1048576,
        md5 = ''8639fd5e549bd6238cfee79e3e749114'',
        mandatory = True, cores = []\<rparr>,
      \<lparr>filename = ''panafz1.bin'', size_bytes = 1048576,
        md5 = ''f47264dd47fe30f73ab3c010015c155b'',
        mandatory = True, cores = []\<rparr>,
      \<lparr>filename = ''panafz10.bin'', size_bytes = 1048576,
        md5 = ''51f2f43ae2f3508a14d9f56597e2d3ce'',
        mandatory = True, cores = []\<rparr>,
      \<lparr>filename = ''sanyotry.bin'', size_bytes = 1048576,
        md5 = ''35fa1a1ebaaeea286dc5cd15487c13ea'',
        mandatory = True, cores = []\<rparr>]"

text \<open>
  Modelled from the spec: the function that audits a system directory against
  \<open>Libretro_BIOS_list\<close> is not part of the sources at hand; only the table is.  The
  spec gives its contract as \<open>audit(directory_listing, core_id)\<close> returning a list of
  \<open>(BiosEntry, satisfied)\<close>: all rows whose core set contains \<open>core_id\<close> are selected,
  and a row is satisfied when the listing has a file with the row's file name, size
  and MD5.  A listed file is given by these three values, the MD5 written as in the
  table.
\<close>

record listed_file =
  lf_filename :: string
  lf_size :: nat
  lf_md5 :: string

definition bios_file_matches :: "BiosEntry \<Rightarrow> listed_file \<Rightarrow> bool" where
  "bios_file_matches e f =
     (lf_filename f = filename e \<and> lf_size f = size_bytes e \<and> lf_md5 f = md5 e)"

definition bios_entry_satisfied :: "listed_file list \<Rightarrow> BiosEntry \<Rightarrow> bool" where
  "bios_entry_satisfied listing e = list_ex (bios_file_matches e) listing"

definition bios_audit :: "listed_file list \<Rightarrow> string \<Rightarrow> (BiosEntry \<times> bool) list" where
  "bios_audit listing core_id =
     map (\<lambda>e. (e, bios_entry_satisfied listing e))
         (filter (\<lambda>e. core_id \<in> set (cores e)) Libretro_BIOS_list)"

definition scph5500 :: BiosEntry where
  "scph5500 =
     \<lparr>filename = ''scph5500.bin'', size_bytes = 524288,
      md5 = ''8dd7d5296a650fac7319bce665a6a53c'',
      mandatory = True, cores = [''mednafen_psx'', ''mednafen_psx_hw'', ''pcsx_rearmed'']\<rparr>"

definition scph5500_file :: listed_file where
  "scph5500_file =
     \<lparr>lf_filename = ''scph5500.bin'', lf_size = 524288,
      lf_md5 = ''8dd7d5296a650fac7319bce665a6a53c''\<rparr>"

section \<open>Properties of XML text escaping\<close>

text \<open>
  C3.  The claim is that unescaping an escaped string gives the string back.  The
  unescaper replaces \<open>&amp;\<close> before the three numeric entities, so the text
  \<open>&#10;\<close> (five ordinary characters) is escaped to \<open>&amp;#10;\<close> and comes back as
  a single newline character.
\<close>

theorem text_unescape_escape_numeric_entity:
  "text_escape_XML ''&#10;'' = ''&amp;#10;'' \<and>
   text_unescape_XML (text_escape_XML ''&#10;'') = [CHR 0x0A] \<and>
   text_unescape_XML (text_escape_XML ''&#10;'') \<noteq> ''&#10;''"
  by (simp add: text_escape_XML_def text_unescape_XML_def ch_newline_def ch_return_def
      ch_tab_def ch_dquote_def ch_squote_def)

lemmas ch_defs = ch_newline_def ch_return_def ch_tab_def ch_dquote_def ch_squote_def

lemma str_replace_blocks:
  assumes "\<And>c cs. R c cs \<Longrightarrow>
      str_replace old new (f c @ concat (map f cs)) = g c @ str_replace old new (concat (map f cs))"
    and "\<And>c cs. G (c # cs) \<Longrightarrow> R c cs \<and> G cs"
    and "G s"
  shows "str_replace old new (concat (map f s)) = concat (map g s)"
  using assms(3)
proof (induction s)
  case Nil
  show ?case by simp
next
  case (Cons c cs)
  from assms(2)[OF Cons.prems] have "R c cs" "G cs" by simp_all
  with assms(1)[of c cs] Cons.IH show ?case by simp
qed

lemma escape_step_1:
  "str_replace ''&'' ''&amp;'' (concat (map (xml_block []) s)) =
     concat (map (xml_block [CHR ''&'']) s)"
  by (rule str_replace_blocks[where R = "\<lambda>c cs. True" and G = "\<lambda>s. True"])
     (auto simp: xml_block_def xml_entity_def ch_defs)

lemma escape_step_2:
  "str_replace ''>'' ''&gt;'' (concat (map (xml_block [CHR ''&'']) s)) =
     concat (map (xml_block [CHR ''&'', CHR ''>'']) s)"
  by (rule str_replace_blocks[where R = "\<lambda>c cs. True" and G = "\<lambda>s. True"])
     (auto simp: xml_block_def xml_entity_def ch_defs)

lemma escape_step_3:
  "str_replace ''<'' ''&lt;'' (concat (map (xml_block [CHR ''&'', CHR ''>'']) s)) =
     concat (map (xml_block [CHR ''&'', CHR ''>'', CHR ''<'']) s)"
  by (rule str_replace_blocks[where R = "\<lambda>c cs. True" and G = "\<lambda>s. True"])
     (auto simp: xml_block_def xml_entity_def ch_defs)

lemma escape_step_4:
  "str_replace [ch_squote] ''&apos;'' (concat (map (xml_block [CHR ''&'', CHR ''>'', CHR ''<'']) s)) =
     concat (map (xml_block [CHR ''&'', CHR ''>'', CHR ''<'', ch_squote]) s)"
  by (rule str_replace_blocks[where R = "\<lambda>c cs. True" and G = "\<lambda>s. True"])
     (auto simp: xml_block_def xml_entity_def ch_defs)

lemma escape_step_5:
  "str_replace [ch_dquote] ''&quot;'' (concat (map (xml_block [CHR ''&'', CHR ''>'', CHR ''<'', ch_squote]) s)) =
     concat (map (xml_block [CHR ''&'', CHR ''>'', CHR ''<'', ch_squote, ch_dquote]) s)"
  by (rule str_replace_blocks[where R = "\<lambda>c cs. True" and G = "\<lambda>s. True"])
     (auto simp: xml_block_def xml_entity_def ch_defs)

lemma escape_step_6:
  "str_replace [ch_newline] ''&#10;'' (concat (map (xml_block [CHR ''&'', CHR ''>'', CHR ''<'', ch_squote, ch_dquote]) s)) =
     concat (map (xml_block [CHR ''&'', CHR ''>'', CHR ''<'', ch_squote, ch_dquote, ch_newline]) s)"
  by (rule str_replace_blocks[where R = "\<lambda>c cs. True" and G = "\<lambda>s. True"])
     (auto simp: xml_block_def xml_entity_def ch_defs)

lemma escape_step_7:
  "str_replace [ch_return] ''&#13;'' (concat (map (xml_block [CHR ''&'', CHR ''>'', CHR ''<'', ch_squote, ch_dquote, ch_newline]) s)) =
     concat (map (xml_block [CHR ''&'', CHR ''>'', CHR ''<'', ch_squote, ch_dquote, ch_newline, ch_return]) s)"
  by (rule str_replace_blocks[where R = "\<lambda>c cs. True" and G = "\<lambda>s. True"])
     (auto simp: xml_block_def xml_entity_def ch_defs)

lemma escape_step_8:
  "str_replace [ch_tab] ''&#9;'' (concat (map (xml_block [CHR ''&'', CHR ''>'', CHR ''<'', ch_squote, ch_dquote, ch_newline, ch_return]) s)) =
     concat (map (xml_block [CHR ''&'', CHR ''>'', CHR ''<'', ch_squote, ch_dquote, ch_newline, ch_return, ch_tab]) s)"
  by (rule str_replace_blocks[where R = "\<lambda>c cs. True" and G = "\<lambda>s. True"])
     (auto simp: xml_block_def xml_entity_def ch_defs)

lemma xml_block_all: "xml_block [CHR ''&'', CHR ''>'', CHR ''<'', ch_squote, ch_dquote, ch_newline, ch_return, ch_tab] = xml_entity"
  by (rule ext) (auto simp: xml_block_def xml_entity_def)

lemma xml_block_none: "concat (map (xml_block []) s) = s"
  by (induction s) (auto simp: xml_block_def)

lemma text_escape_XML_blocks: "text_escape_XML s = concat (map xml_entity s)"
proof -
  have "text_escape_XML s = text_escape_XML (concat (map (xml_block []) s))"
    by (simp add: xml_block_none)
  also have "\<dots> = concat (map (xml_block [CHR ''&'', CHR ''>'', CHR ''<'', ch_squote, ch_dquote, ch_newline, ch_return, ch_tab]) s)"
    unfolding text_escape_XML_def Let_def
    by (simp only: escape_step_1 escape_step_2 escape_step_3 escape_step_4 escape_step_5
        escape_step_6 escape_step_7 escape_step_8)
  finally show ?thesis by (simp only: xml_block_all)
qed

lemma unescape_step_1:
  "str_replace ''&quot;'' [ch_dquote] (concat (map (xml_block [CHR ''&'', CHR ''>'', CHR ''<'', ch_squote, ch_dquote, ch_newline, ch_return, ch_tab]) s)) =
     concat (map (xml_block [CHR ''&'', CHR ''>'', CHR ''<'', ch_squote, ch_newline, ch_return, ch_tab]) s)"
  by (rule str_replace_blocks[where R = "\<lambda>c cs. True" and G = "\<lambda>s. True"])
     (auto simp: xml_block_def xml_entity_def ch_defs)

lemma unescape_step_2:
  "str_replace ''&apos;'' [ch_squote] (concat (map (xml_block [CHR ''&'', CHR ''>'', CHR ''<'', ch_squote, ch_newline, ch_return, ch_tab]) s)) =
     concat (map (xml_block [CHR ''&'', CHR ''>'', CHR ''<'', ch_newline, ch_return, ch_tab]) s)"
  by (rule str_replace_blocks[where R = "\<lambda>c cs. True" and G = "\<lambda>s. True"])
     (auto simp: xml_block_def xml_entity_def ch_defs)

lemma unescape_step_3:
  "str_replace ''&lt;'' ''<'' (concat (map (xml_block [CHR ''&'', CHR ''>'', CHR ''<'', ch_newline, ch_return, ch_tab]) s)) =
     concat (map (xml_block [CHR ''&'', CHR ''>'', ch_newline, ch_return, ch_tab]) s)"
  by (rule str_replace_blocks[where R = "\<lambda>c cs. True" and G = "\<lambda>s. True"])
     (auto simp: xml_block_def xml_entity_def ch_defs)

lemma unescape_step_4:
  "str_replace ''&gt;'' ''>'' (concat (map (xml_block [CHR ''&'', CHR ''>'', ch_newline, ch_return, ch_tab]) s)) =
     concat (map (xml_block [CHR ''&'', ch_newline, ch_return, ch_tab]) s)"
  by (rule str_replace_blocks[where R = "\<lambda>c cs. True" and G = "\<lambda>s. True"])
     (auto simp: xml_block_def xml_entity_def ch_defs)

lemma unescape_step_5:
  "str_replace ''&amp;'' ''&'' (concat (map (xml_block [CHR ''&'', ch_newline, ch_return, ch_tab]) s)) =
     concat (map (xml_block [ch_newline, ch_return, ch_tab]) s)"
  by (rule str_replace_blocks[where R = "\<lambda>c cs. True" and G = "\<lambda>s. True"])
     (auto simp: xml_block_def xml_entity_def ch_defs)

lemma prefix_blocks:
  assumes "\<And>d. f d \<noteq> [] \<and> (hd (f d) \<in> A \<longrightarrow> f d = [d])"
  shows "set lit \<subseteq> A \<Longrightarrow> prefix lit (concat (map f cs)) \<Longrightarrow> prefix lit cs"
proof (induction lit arbitrary: cs)
  case Nil
  show ?case by simp
next
  case (Cons x lit)
  show ?case
  proof (cases cs)
    case Nil
    with Cons.prems show ?thesis by simp
  next
    case (Cons d ds)
    from assms[of d] obtain y ys where fd: "f d = y # ys" by (cases "f d") auto
    with Cons.prems(2) Cons have "y = x" by simp
    with Cons.prems(1) fd assms[of d] have one: "f d = [d]" "d = x" by auto
    with Cons.prems(2) Cons have "prefix lit (concat (map f ds))" by simp
    with Cons.IH Cons.prems(1) have "prefix lit ds" by simp
    with one Cons show ?thesis by simp
  qed
qed

lemma xml_block_literal:
  "xml_block E d \<noteq> [] \<and> (hd (xml_block E d) \<in> set ''#1039;'' \<longrightarrow> xml_block E d = [d])"
  by (auto simp: xml_block_def xml_entity_def)

lemma no_numeric_entity_blocks:
  assumes "no_numeric_entity (c # cs)" and "c = CHR ''&''"
  shows "\<not> prefix ''#10;'' (concat (map (xml_block E) cs))"
    and "\<not> prefix ''#13;'' (concat (map (xml_block E) cs))"
    and "\<not> prefix ''#9;'' (concat (map (xml_block E) cs))"
proof -
  have 1: "set ''#10;'' \<subseteq> set ''#1039;''" and 2: "set ''#13;'' \<subseteq> set ''#1039;''"
    and 3: "set ''#9;'' \<subseteq> set ''#1039;''" by auto
  note lift = prefix_blocks[of "xml_block E" "set ''#1039;''", OF xml_block_literal]
  from assms lift[OF 1, of cs] show "\<not> prefix ''#10;'' (concat (map (xml_block E) cs))" by auto
  from assms lift[OF 2, of cs] show "\<not> prefix ''#13;'' (concat (map (xml_block E) cs))" by auto
  from assms lift[OF 3, of cs] show "\<not> prefix ''#9;'' (concat (map (xml_block E) cs))" by auto
qed

lemma unescape_step_6:
  assumes "no_numeric_entity s"
  shows "str_replace ''&#10;'' [ch_newline] (concat (map (xml_block [ch_newline, ch_return, ch_tab]) s)) =
     concat (map (xml_block [ch_return, ch_tab]) s)"
proof (rule str_replace_blocks[where R = "\<lambda>c cs. no_numeric_entity (c # cs)"
      and G = no_numeric_entity])
  fix c cs
  assume a: "no_numeric_entity (c # cs)"
  show "str_replace ''&#10;'' [ch_newline] (xml_block [ch_newline, ch_return, ch_tab] c @ concat (map (xml_block [ch_newline, ch_return, ch_tab]) cs)) =
     xml_block [ch_return, ch_tab] c @ str_replace ''&#10;'' [ch_newline] (concat (map (xml_block [ch_newline, ch_return, ch_tab]) cs))"
  proof (cases "c = CHR ''&''")
    case True
    with no_numeric_entity_blocks[OF a True, of "[ch_newline, ch_return, ch_tab]"] show ?thesis
      by (simp add: xml_block_def ch_defs)
  next
    case False
    then show ?thesis by (auto simp: xml_block_def xml_entity_def ch_defs)
  qed
next
  fix c cs
  assume "no_numeric_entity (c # cs)"
  then show "no_numeric_entity (c # cs) \<and> no_numeric_entity cs" by simp
next
  show "no_numeric_entity s" by (rule assms)
qed

lemma unescape_step_7:
  assumes "no_numeric_entity s"
  shows "str_replace ''&#13;'' [ch_return] (concat (map (xml_block [ch_return, ch_tab]) s)) =
     concat (map (xml_block [ch_tab]) s)"
proof (rule str_replace_blocks[where R = "\<lambda>c cs. no_numeric_entity (c # cs)"
      and G = no_numeric_entity])
  fix c cs
  assume a: "no_numeric_entity (c # cs)"
  show "str_replace ''&#13;'' [ch_return] (xml_block [ch_return, ch_tab] c @ concat (map (xml_block [ch_return, ch_tab]) cs)) =
     xml_block [ch_tab] c @ str_replace ''&#13;'' [ch_return] (concat (map (xml_block [ch_return, ch_tab]) cs))"
  proof (cases "c = CHR ''&''")
    case True
    with no_numeric_entity_blocks[OF a True, of "[ch_return, ch_tab]"] show ?thesis
      by (simp add: xml_block_def ch_defs)
  next
    case False
    then show ?thesis by (auto simp: xml_block_def xml_entity_def ch_defs)
  qed
next
  fix c cs
  assume "no_numeric_entity (c # cs)"
  then show "no_numeric_entity (c # cs) \<and> no_numeric_entity cs" by simp
next
  show "no_numeric_entity s" by (rule assms)
qed

lemma unescape_step_8:
  assumes "no_numeric_entity s"
  shows "str_replace ''&#9;'' [ch_tab] (concat (map (xml_block [ch_tab]) s)) =
     concat (map (xml_block []) s)"
proof (rule str_replace_blocks[where R = "\<lambda>c cs. no_numeric_entity (c # cs)"
      and G = no_numeric_entity])
  fix c cs
  assume a: "no_numeric_entity (c # cs)"
  show "str_replace ''&#9;'' [ch_tab] (xml_block [ch_tab] c @ concat (map (xml_block [ch_tab]) cs)) =
     xml_block [] c @ str_replace ''&#9;'' [ch_tab] (concat (map (xml_block [ch_tab]) cs))"
  proof (cases "c = CHR ''&''")
    case True
    with no_numeric_entity_blocks[OF a True, of "[ch_tab]"] show ?thesis
      by (simp add: xml_block_def ch_defs)
  next
    case False
    then show ?thesis by (auto simp: xml_block_def xml_entity_def ch_defs)
  qed
next
  fix c cs
  assume "no_numeric_entity (c # cs)"
  then show "no_numeric_entity (c # cs) \<and> no_numeric_entity cs" by simp
next
  show "no_numeric_entity s" by (rule assms)
qed

text \<open>
  Apart from the numeric entities the round trip holds: a string that contains none
  of the texts \<open>&#10;\<close>, \<open>&#13;\<close> and \<open>&#9;\<close> is unchanged by escaping and then
  unescaping.
\<close>

lemma text_unescape_escape_XML:
  assumes "no_numeric_entity s"
  shows "text_unescape_XML (text_escape_XML s) = s"
proof -
  have "text_unescape_XML (text_escape_XML s) =
          text_unescape_XML (concat (map (xml_block [CHR ''&'', CHR ''>'', CHR ''<'', ch_squote, ch_dquote, ch_newline, ch_return, ch_tab]) s))"
    by (simp only: text_escape_XML_blocks xml_block_all)
  also have "\<dots> = concat (map (xml_block []) s)"
    unfolding text_unescape_XML_def Let_def
    by (simp only: unescape_step_1 unescape_step_2 unescape_step_3 unescape_step_4
        unescape_step_5 unescape_step_6[OF assms] unescape_step_7[OF assms]
        unescape_step_8[OF assms])
  finally show ?thesis by (simp only: xml_block_none)
qed

section \<open>Properties of the parent/clone dictionary\<close>

lemma foldl_pclone_step:
  "foldl pclone_step d cat p =
     (case d p of
        Some l \<Rightarrow> Some (l @ clones_of p cat)
      | None \<Rightarrow> if is_key p cat then Some (clones_of p cat) else None)"
proof (induction cat arbitrary: d)
  case Nil
  show ?case by (simp add: clones_of_def is_key_def split: option.splits)
next
  case (Cons kv cat)
  obtain n m where kv: "kv = (n, m)" by (cases kv)
  show ?case
    unfolding kv foldl_Cons Cons.IH
    by (auto simp: clones_of_def is_key_def Let_def split: option.splits)
qed

lemma pclone_dic_lookup:
  "audit_make_NoIntro_PClone_dic cat p =
     (if is_key p cat then Some (clones_of p cat) else None)"
  by (simp add: audit_make_NoIntro_PClone_dic_def foldl_pclone_step)

lemma clones_of_mem:
  "n \<in> set (clones_of p cat) \<longleftrightarrow> (\<exists>m. (n, m) \<in> set cat \<and> cloneof m \<noteq> [] \<and> cloneof m = p)"
  by (force simp: clones_of_def)

lemma count_clones_of:
  "distinct (map fst cat) \<Longrightarrow> (n, m) \<in> set cat \<Longrightarrow> cloneof m \<noteq> [] \<Longrightarrow>
   count_list (clones_of (cloneof m) cat) n = 1"
proof (induction cat)
  case Nil then show ?case by simp
next
  case (Cons kv cat)
  obtain n' m' where kv: "kv = (n', m')" by (cases kv)
  show ?case
  proof (cases "(n, m) = (n', m')")
    case True
    with Cons.prems kv have "n \<notin> fst ` set cat" by auto
    then have "n \<notin> set (clones_of (cloneof m) cat)" by (force simp: clones_of_mem)
    then have "count_list (clones_of (cloneof m) cat) n = 0" by (simp add: count_list_0_iff)
    with True kv Cons.prems show ?thesis by (simp add: clones_of_def)
  next
    case False
    with Cons.prems kv have mem: "(n, m) \<in> set cat" by auto
    with Cons.prems kv have "n \<noteq> n'" by force
    with Cons.IH mem Cons.prems kv show ?thesis by (simp add: clones_of_def)
  qed
qed

text \<open>
  C1 (as amended).  For a catalog with distinct keys and any of its records: a record
  with an empty \<open>cloneof\<close> is a key of the parent/clone dictionary; a record with a
  non-empty \<open>cloneof\<close> occurs exactly once in the clone list stored under that parent
  name; and whatever key holds the record's name in its clone list, that key is the
  record's \<open>cloneof\<close>, so the name is in at most one clone list and a parent is in
  none; and a record with a non-empty \<open>cloneof\<close> that no record names as its parent
  is not a key.
\<close>

theorem pclone_dic_names:
  assumes "distinct (map fst nointro_dic)"
    and "(machine_name, machine) \<in> set nointro_dic"
  shows "(cloneof machine = [] \<longrightarrow>
            audit_make_NoIntro_PClone_dic nointro_dic machine_name \<noteq> None) \<and>
         (cloneof machine \<noteq> [] \<longrightarrow>
            (\<exists>clones. audit_make_NoIntro_PClone_dic nointro_dic (cloneof machine) = Some clones \<and>
                      count_list clones machine_name = 1)) \<and>
         (\<forall>p clones. audit_make_NoIntro_PClone_dic nointro_dic p = Some clones \<and>
                     machine_name \<in> set clones \<longrightarrow>
                     cloneof machine \<noteq> [] \<and> p = cloneof machine) \<and>
         (cloneof machine \<noteq> [] \<and> (\<forall>(n, m) \<in> set nointro_dic. cloneof m \<noteq> machine_name) \<longrightarrow>
            audit_make_NoIntro_PClone_dic nointro_dic machine_name = None)"
proof (intro conjI impI allI)
  assume "cloneof machine = []"
  with assms(2) have "is_key machine_name nointro_dic" by (auto simp: is_key_def)
  then show "audit_make_NoIntro_PClone_dic nointro_dic machine_name \<noteq> None"
    by (simp add: pclone_dic_lookup)
next
  assume c: "cloneof machine \<noteq> []"
  with assms(2) have "is_key (cloneof machine) nointro_dic" by (auto simp: is_key_def)
  with count_clones_of[OF assms c]
  show "\<exists>clones. audit_make_NoIntro_PClone_dic nointro_dic (cloneof machine) = Some clones \<and>
                 count_list clones machine_name = 1"
    by (simp add: pclone_dic_lookup)
next
  fix p clones
  assume a: "audit_make_NoIntro_PClone_dic nointro_dic p = Some clones \<and> machine_name \<in> set clones"
  then have "machine_name \<in> set (clones_of p nointro_dic)"
    by (auto simp: pclone_dic_lookup split: if_splits)
  then obtain m where m: "(machine_name, m) \<in> set nointro_dic" "cloneof m \<noteq> []" "cloneof m = p"
    by (auto simp: clones_of_mem)
  from assms m(1) have "m = machine" by (meson eq_key_imp_eq_value)
  with m show "cloneof machine \<noteq> []" "p = cloneof machine" by auto
next
  assume a: "cloneof machine \<noteq> [] \<and> (\<forall>(n, m) \<in> set nointro_dic. cloneof m \<noteq> machine_name)"
  have "\<not> is_key machine_name nointro_dic"
  proof
    assume "is_key machine_name nointro_dic"
    then obtain n m where nm: "(n, m) \<in> set nointro_dic"
        "(cloneof m = [] \<and> n = machine_name) \<or> (cloneof m \<noteq> [] \<and> cloneof m = machine_name)"
      by (auto simp: is_key_def)
    from a nm(1) have "cloneof m \<noteq> machine_name" by auto
    with nm(2) have e: "cloneof m = []" "n = machine_name" by auto
    with assms nm(1) have "m = machine" by (meson eq_key_imp_eq_value)
    with e a show False by simp
  qed
  then show "audit_make_NoIntro_PClone_dic nointro_dic machine_name = None"
    by (simp add: pclone_dic_lookup)
qed

text \<open>
  C1 as stated fails: a clone is not a key.  In the catalog of parent \<open>A\<close> and its
  clone \<open>B\<close>, the name \<open>B\<close> is no key of the dictionary.
\<close>

theorem pclone_dic_clone_not_key:
  "audit_make_NoIntro_PClone_dic catalog_example ''B'' = None"
  by (simp add: audit_make_NoIntro_PClone_dic_def catalog_example_def audit_new_rom_logiqx_def)

theorem pclone_dic_names_witness:
  "distinct (map fst catalog_example) \<and>
   (''B'', audit_new_rom_logiqx\<lparr>name := ''B'', cloneof := ''A''\<rparr>) \<in> set catalog_example \<and>
   (\<exists>clones. audit_make_NoIntro_PClone_dic catalog_example ''A'' = Some clones \<and>
                      count_list clones ''B'' = 1)"
  using pclone_dic_names[of catalog_example "''B''" "audit_new_rom_logiqx\<lparr>name := ''B'', cloneof := ''A''\<rparr>"]
  by (simp add: catalog_example_def audit_new_rom_logiqx_def)

section \<open>Properties of the LaunchBox and No-Intro loaders\<close>


lemma lb_read_children_None:
  "lb_read_children r cs = None \<longleftrightarrow> (\<exists>c \<in> set cs. r (el_tag c) = None)"
proof (induction cs arbitrary: r)
  case Nil
  show ?case by simp
next
  case (Cons c cs)
  show ?case
  proof (cases "r (el_tag c) = None")
    case True
    then show ?thesis by simp
  next
    case False
    then show ?thesis by (simp add: Cons.IH Let_def) force
  qed
qed

lemma lb_unknown_child_returns:
  "lb_unknown_child bad \<Longrightarrow> lb_read_elements dics (bad # post) = Inr dics"
  by (cases dics) (auto simp: lb_unknown_child_def lb_read_children_None[symmetric])

lemma lb_read_elements_abort:
  "lb_unknown_child bad \<Longrightarrow>
   lb_read_elements dics (pre @ bad # post) = lb_read_elements dics pre"
proof (induction pre arbitrary: dics)
  case Nil
  then show ?case by (simp add: lb_unknown_child_returns)
next
  case (Cons e pre)
  obtain g p i where dics: "dics = (g, p, i)" by (cases dics)
  show ?case unfolding dics
    by (simp add: Cons.IH[OF Cons.prems] split: option.splits)
qed

lemma lb_read_children_Some:
  "(\<forall>c \<in> set cs. r (el_tag c) \<noteq> None) \<Longrightarrow>
   lb_read_children r cs =
     Some (foldl (\<lambda>r c. r(el_tag c \<mapsto>
                     text_unescape_XML (case el_text c of Some t \<Rightarrow> t | None \<Rightarrow> '''')))
                 r cs)"
proof (induction cs arbitrary: r)
  case Nil
  show ?case by simp
next
  case (Cons c cs)
  let ?r = "r(el_tag c \<mapsto> text_unescape_XML (case el_text c of Some t \<Rightarrow> t | None \<Rightarrow> ''''))"
  let ?F = "\<lambda>r c. r(el_tag c \<mapsto>
                     text_unescape_XML (case el_text c of Some t \<Rightarrow> t | None \<Rightarrow> ''''))"
  from Cons.prems have known: "\<forall>c' \<in> set cs. ?r (el_tag c') \<noteq> None" by simp
  have "lb_read_children r (c # cs) = lb_read_children ?r cs"
    using Cons.prems by (auto simp: Let_def)
  also have "\<dots> = Some (foldl ?F ?r cs)" by (rule Cons.IH[OF known])
  also have "foldl ?F ?r cs = foldl ?F r (c # cs)" by simp
  finally show ?case .
qed

lemma foldl_update_keeps:
  "r k \<noteq> None \<Longrightarrow> foldl (\<lambda>r c. r(f c \<mapsto> g c)) r cs k \<noteq> None"
  by (induction cs arbitrary: r) auto

lemma lb_complete_record_key:
  "template k \<noteq> None \<Longrightarrow> lb_complete_record template e k \<noteq> None"
  unfolding lb_complete_record_def by (rule foldl_update_keeps)

lemma lb_read_children_complete:
  assumes "\<forall>c \<in> set (el_children e). template (el_tag c) \<noteq> None"
  shows "lb_read_children template (el_children e) = Some (lb_complete_record template e)"
  unfolding lb_complete_record_def by (rule lb_read_children_Some[OF assms])

lemma lb_records_of_Cons:
  "lb_records_of main_tag key_field template dic (e # es) =
     (if el_tag e = main_tag
      then lb_records_of main_tag key_field template
             (case lb_complete_record template e key_field of
                Some k \<Rightarrow> dic(k \<mapsto> lb_complete_record template e)
              | None \<Rightarrow> dic) es
      else lb_records_of main_tag key_field template dic es)"
  by (simp add: lb_records_of_def)

lemma lb_records_of_Nil: "lb_records_of main_tag key_field template dic [] = dic"
  by (simp add: lb_records_of_def)

lemma lb_read_elements_readable:
  assumes "\<forall>e \<in> set pre. lb_readable e"
  shows "lb_read_elements (g0, p0, i0) pre =
     Inr (lb_records_of ''Game'' ''Name'' audit_new_LB_game g0 pre,
          lb_records_of ''Platform'' ''Name'' audit_new_LB_platform p0 pre,
          lb_records_of ''GameImage'' ''FileName'' audit_new_LB_gameImage i0 pre)"
  using assms
proof (induction pre arbitrary: g0 p0 i0)
  case Nil
  show ?case by (simp add: lb_records_of_Nil)
next
  case (Cons e pre)
  from Cons.prems have e: "lb_readable e" and rest: "\<forall>e \<in> set pre. lb_readable e" by simp_all
  note IH = Cons.IH[OF rest]
  from e consider (game) "el_tag e = ''Game''" | (platform) "el_tag e = ''Platform''"
    | (image) "el_tag e = ''GameImage''"
    | (other) "el_tag e \<in> set [''PlatformAlternateName'', ''Emulator'', ''EmulatorPlatform'',
        ''GameAlternateName'']"
    by (auto simp: lb_readable_def)
  then show ?case
  proof cases
    case game
    with e have "\<forall>c \<in> set (el_children e). audit_new_LB_game (el_tag c) \<noteq> None"
      by (auto simp: lb_readable_def lb_unknown_child_def)
    from lb_read_children_complete[OF this]
    have rc: "lb_read_children audit_new_LB_game (el_children e) =
        Some (lb_complete_record audit_new_LB_game e)" .
    have "audit_new_LB_game ''Name'' \<noteq> None" by (simp add: audit_new_LB_game_def)
    from lb_complete_record_key[of audit_new_LB_game "''Name''" e] this obtain k
      where k: "lb_complete_record audit_new_LB_game e ''Name'' = Some k" by auto
    have "lb_read_elements (g0, p0, i0) (e # pre) =
        lb_read_elements (g0(k \<mapsto> lb_complete_record audit_new_LB_game e), p0, i0) pre"
      using game rc k by simp
    also have "\<dots> =
        Inr (lb_records_of ''Game'' ''Name'' audit_new_LB_game (g0(k \<mapsto> lb_complete_record audit_new_LB_game e)) pre,
             lb_records_of ''Platform'' ''Name'' audit_new_LB_platform (p0) pre,
             lb_records_of ''GameImage'' ''FileName'' audit_new_LB_gameImage (i0) pre)"
      by (rule IH)
    also have "\<dots> =
        Inr (lb_records_of ''Game'' ''Name'' audit_new_LB_game g0 (e # pre),
             lb_records_of ''Platform'' ''Name'' audit_new_LB_platform p0 (e # pre),
             lb_records_of ''GameImage'' ''FileName'' audit_new_LB_gameImage i0 (e # pre))"
      using game k by (simp add: lb_records_of_Cons)
    finally show ?thesis .
  next
    case platform
    with e have "\<forall>c \<in> set (el_children e). audit_new_LB_platform (el_tag c) \<noteq> None"
      by (auto simp: lb_readable_def lb_unknown_child_def)
    from lb_read_children_complete[OF this]
    have rc: "lb_read_children audit_new_LB_platform (el_children e) =
        Some (lb_complete_record audit_new_LB_platform e)" .
    have "audit_new_LB_platform ''Name'' \<noteq> None" by (simp add: audit_new_LB_platform_def)
    from lb_complete_record_key[of audit_new_LB_platform "''Name''" e] this obtain k
      where k: "lb_complete_record audit_new_LB_platform e ''Name'' = Some k" by auto
    have "lb_read_elements (g0, p0, i0) (e # pre) =
        lb_read_elements (g0, p0(k \<mapsto> lb_complete_record audit_new_LB_platform e), i0) pre"
      using platform rc k by simp
    also have "\<dots> =
        Inr (lb_records_of ''Game'' ''Name'' audit_new_LB_game (g0) pre,
             lb_records_of ''Platform'' ''Name'' audit_new_LB_platform (p0(k \<mapsto> lb_complete_record audit_new_LB_platform e)) pre,
             lb_records_of ''GameImage'' ''FileName'' audit_new_LB_gameImage (i0) pre)"
      by (rule IH)
    also have "\<dots> =
        Inr (lb_records_of ''Game'' ''Name'' audit_new_LB_game g0 (e # pre),
             lb_records_of ''Platform'' ''Name'' audit_new_LB_platform p0 (e # pre),
             lb_records_of ''GameImage'' ''FileName'' audit_new_LB_gameImage i0 (e # pre))"
      using platform k by (simp add: lb_records_of_Cons)
    finally show ?thesis .
  next
    case image
    with e have "\<forall>c \<in> set (el_children e). audit_new_LB_gameImage (el_tag c) \<noteq> None"
      by (auto simp: lb_readable_def lb_unknown_child_def)
    from lb_read_children_complete[OF this]
    have rc: "lb_read_children audit_new_LB_gameImage (el_children e) =
        Some (lb_complete_record audit_new_LB_gameImage e)" .
    have "audit_new_LB_gameImage ''FileName'' \<noteq> None"
      by (simp add: audit_new_LB_gameImage_def)
    from lb_complete_record_key[of audit_new_LB_gameImage "''FileName''" e] this obtain k
      where k: "lb_complete_record audit_new_LB_gameImage e ''FileName'' = Some k" by auto
    have "lb_read_elements (g0, p0, i0) (e # pre) =
        lb_read_elements (g0, p0, i0(k \<mapsto> lb_complete_record audit_new_LB_gameImage e)) pre"
      using image rc k by simp
    also have "\<dots> =
        Inr (lb_records_of ''Game'' ''Name'' audit_new_LB_game (g0) pre,
             lb_records_of ''Platform'' ''Name'' audit_new_LB_platform (p0) pre,
             lb_records_of ''GameImage'' ''FileName'' audit_new_LB_gameImage (i0(k \<mapsto> lb_complete_record audit_new_LB_gameImage e)) pre)"
      by (rule IH)
    also have "\<dots> =
        Inr (lb_records_of ''Game'' ''Name'' audit_new_LB_game g0 (e # pre),
             lb_records_of ''Platform'' ''Name'' audit_new_LB_platform p0 (e # pre),
             lb_records_of ''GameImage'' ''FileName'' audit_new_LB_gameImage i0 (e # pre))"
      using image k by (simp add: lb_records_of_Cons)
    finally show ?thesis .
  next
    case other
    then show ?thesis using IH by (auto simp: lb_records_of_Cons)
  qed
qed

text \<open>
  C4.  When an element of the file is a \<open><Game>\<close>, \<open><Platform>\<close> or \<open><GameImage>\<close>
  with a child tag outside the record's template, the loader returns at that element:
  the dictionaries are those of reading the elements before it, whatever elements
  follow in the file.  When the loader reads each of the elements before it to its
  end, the dictionaries hold exactly the records completed from those elements, on
  top of what they held at the call.
\<close>

theorem lb_nested_unknown_tag_aborts:
  assumes "file_exists filename_FN"
    and "file_readXml filename_FN = Inr xml_root"
    and "el_children xml_root = pre @ bad # post"
    and "lb_unknown_child bad"
  shows "audit_load_LB_metadata_XML filename_FN (g0, p0, i0) = lb_read_elements (g0, p0, i0) pre \<and>
         ((\<forall>e \<in> set pre. lb_readable e) \<longrightarrow>
            audit_load_LB_metadata_XML filename_FN (g0, p0, i0) =
              Inr (lb_records_of ''Game'' ''Name'' audit_new_LB_game g0 pre,
                   lb_records_of ''Platform'' ''Name'' audit_new_LB_platform p0 pre,
                   lb_records_of ''GameImage'' ''FileName'' audit_new_LB_gameImage i0 pre))"
proof -
  have cut: "audit_load_LB_metadata_XML filename_FN (g0, p0, i0) = lb_read_elements (g0, p0, i0) pre"
    using assms by (simp add: audit_load_LB_metadata_XML_def lb_read_elements_abort)
  show ?thesis
  proof (intro conjI impI)
    show "audit_load_LB_metadata_XML filename_FN (g0, p0, i0) = lb_read_elements (g0, p0, i0) pre"
      by (rule cut)
  next
    assume "\<forall>e \<in> set pre. lb_readable e"
    from lb_read_elements_readable[OF this, of g0 p0 i0] cut
    show "audit_load_LB_metadata_XML filename_FN (g0, p0, i0) =
              Inr (lb_records_of ''Game'' ''Name'' audit_new_LB_game g0 pre,
                   lb_records_of ''Platform'' ''Name'' audit_new_LB_platform p0 pre,
                   lb_records_of ''GameImage'' ''FileName'' audit_new_LB_gameImage i0 pre)"
      by simp
  qed
qed

lemma lb_example_bad_unknown: "lb_unknown_child lb_example_bad"
  by (simp add: lb_unknown_child_def lb_example_bad_def audit_new_LB_game_def)

lemma lb_example_good_readable: "lb_readable lb_example_good"
  by (simp add: lb_readable_def lb_unknown_child_def lb_example_good_def audit_new_LB_game_def)

lemma lb_example_good_record:
  "lb_complete_record audit_new_LB_game lb_example_good = audit_new_LB_game(''Name'' \<mapsto> ''Doom'')"
  by (simp add: lb_complete_record_def lb_example_good_def text_unescape_XML_def)

lemma lb_example_good_records:
  "lb_records_of ''Game'' ''Name'' audit_new_LB_game Map.empty [lb_example_good] =
     [''Doom'' \<mapsto> audit_new_LB_game(''Name'' \<mapsto> ''Doom'')] \<and>
   lb_records_of ''Platform'' ''Name'' audit_new_LB_platform Map.empty [lb_example_good] = Map.empty \<and>
   lb_records_of ''GameImage'' ''FileName'' audit_new_LB_gameImage Map.empty [lb_example_good]
     = Map.empty"
  by (simp add: lb_records_of_Cons lb_records_of_Nil lb_example_good_record)
     (simp add: lb_example_good_def)

theorem lb_nested_unknown_tag_aborts_witness:
  "file_exists lb_example_file \<and>
   file_readXml lb_example_file =
     Inr (Element ''LaunchBox'' [] None [lb_example_good, lb_example_bad, lb_example_later]) \<and>
   lb_unknown_child lb_example_bad \<and>
   audit_load_LB_metadata_XML lb_example_file (Map.empty, Map.empty, Map.empty) =
     Inr ([''Doom'' \<mapsto> audit_new_LB_game(''Name'' \<mapsto> ''Doom'')], Map.empty, Map.empty)"
proof -
  have f: "file_exists lb_example_file"
    "file_readXml lb_example_file =
       Inr (Element ''LaunchBox'' [] None [lb_example_good, lb_example_bad, lb_example_later])"
    by (simp_all add: lb_example_file_def)
  have c: "el_children (Element ''LaunchBox'' [] None
              [lb_example_good, lb_example_bad, lb_example_later])
            = [lb_example_good] @ lb_example_bad # [lb_example_later]"
    by simp
  have r: "\<forall>e \<in> set [lb_example_good]. lb_readable e"
    by (simp add: lb_example_good_readable)
  from r lb_nested_unknown_tag_aborts[OF f c lb_example_bad_unknown,
      of Map.empty Map.empty Map.empty, THEN conjunct2]
  have "audit_load_LB_metadata_XML lb_example_file (Map.empty, Map.empty, Map.empty) =
     Inr (lb_records_of ''Game'' ''Name'' audit_new_LB_game Map.empty [lb_example_good],
          lb_records_of ''Platform'' ''Name'' audit_new_LB_platform Map.empty [lb_example_good],
          lb_records_of ''GameImage'' ''FileName'' audit_new_LB_gameImage Map.empty
            [lb_example_good])"
    by (rule mp[rotated])
  then have "audit_load_LB_metadata_XML lb_example_file (Map.empty, Map.empty, Map.empty) =
     Inr ([''Doom'' \<mapsto> audit_new_LB_game(''Name'' \<mapsto> ''Doom'')], Map.empty, Map.empty)"
    by (simp only: lb_example_good_records)
  with f lb_example_bad_unknown show ?thesis by (intro conjI)
qed

text \<open>
  C2.  The claim is that the loader returns one entry per \<open><game>\<close> element of an
  existing, well-formed file.  On such a file the source, after parsing, evaluates
  \<open>xml_tree.getroot()\<close> for a name \<open>xml_tree\<close> that is not bound, and raises
  \<open>NameError\<close> instead of returning a mapping.
\<close>

theorem nointro_loader_raises_NameError:
  "audit_load_NoIntro_XML_file None nointro_example_file = Inl NameError"
  by (simp add: audit_load_NoIntro_XML_file_def nointro_example_file_def)

lemma nointro_loader_unbound:
  "file_exists xml_FN \<Longrightarrow> file_readXml xml_FN = Inr xml_root \<Longrightarrow>
   audit_load_NoIntro_XML_file None xml_FN = Inl NameError"
  by (simp add: audit_load_NoIntro_XML_file_def)

lemma nointro_loader_bound:
  "file_exists xml_FN \<Longrightarrow> file_readXml xml_FN = Inr xml_root \<Longrightarrow>
   audit_load_NoIntro_XML_file (Some tree_root) xml_FN =
     nointro_read_elements Map.empty (el_children tree_root)"
  by (simp add: audit_load_NoIntro_XML_file_def)


text \<open>
  The loop of the loader, had it been given the root of the file: with a \<open>name\<close>
  attribute on every \<open><game>\<close> element it returns a mapping whose keys are those
  names.
\<close>

lemma nointro_read_elements_dom:
  assumes "\<forall>e \<in> set es. el_tag e = ''game'' \<longrightarrow> map_of (el_attrib e) ''name'' \<noteq> None"
  shows "\<exists>d. nointro_read_elements d0 es = Inr d \<and>
             dom d = dom d0 \<union> {n. \<exists>e \<in> set es. el_tag e = ''game'' \<and>
                                      map_of (el_attrib e) ''name'' = Some n}"
  using assms
proof (induction es arbitrary: d0)
  case Nil
  show ?case by simp
next
  case (Cons e es)
  show ?case
  proof (cases "el_tag e = ''game''")
    case False
    with Cons.IH[of d0] Cons.prems show ?thesis by auto
  next
    case True
    with Cons.prems obtain n where n: "map_of (el_attrib e) ''name'' = Some n" by auto
    let ?rom = "case map_of (el_attrib e) ''cloneof'' of
                  Some c \<Rightarrow> audit_new_rom_logiqx\<lparr>name := n, cloneof := c\<rparr>
                | None \<Rightarrow> audit_new_rom_logiqx\<lparr>name := n\<rparr>"
    from Cons.prems have "\<forall>e \<in> set es. el_tag e = ''game'' \<longrightarrow> map_of (el_attrib e) ''name'' \<noteq> None"
      by simp
    from Cons.IH[OF this, of "d0(n \<mapsto> ?rom)"] obtain d
      where d: "nointro_read_elements (d0(n \<mapsto> ?rom)) es = Inr d"
        "dom d = dom (d0(n \<mapsto> ?rom)) \<union> {n. \<exists>e \<in> set es. el_tag e = ''game'' \<and>
                                      map_of (el_attrib e) ''name'' = Some n}"
      by blast
    have "nointro_read_elements d0 (e # es) = Inr d"
      using True n d(1) by (simp add: Let_def split: option.splits)
    moreover have "dom d = dom d0 \<union> {m. \<exists>x \<in> set (e # es). el_tag x = ''game'' \<and>
                                      map_of (el_attrib x) ''name'' = Some m}"
      using d(2) True n by auto
    ultimately show ?thesis by blast
  qed
qed

section \<open>Properties of the Tempest INI loader\<close>


lemma str_split_not_Nil: "str_split sep s \<noteq> []"
  by (induction s) (auto split: list.splits)

lemma tempest_field_allowed:
  "f \<in> set tempest_allowed \<Longrightarrow> \<exists>g'. tempest_field f v g = Inr g'"
  by (auto simp: tempest_allowed_def tempest_field_def)

lemma tempest_field_not_allowed:
  "f \<notin> set tempest_allowed \<Longrightarrow> tempest_field f v g = Inl NameError"
  by (simp add: tempest_allowed_def tempest_field_def)

lemma tempest_line_seek:
  "read_status st = 0 \<Longrightarrow>
   tempest_line st l =
     (case re_search_section (decode_replace (str_strip l)) of
        Some m \<Rightarrow> Inr (st\<lparr>game := audit_new_rom_GameDB(''name'' \<mapsto> m), game_key := m,
                          read_status := 1\<rparr>)
      | None \<Rightarrow> Inr st)"
  by (simp add: tempest_line_def)

lemma tempest_line_close:
  assumes "read_status st = 1" and "tempest_field_name l = None"
  shows "tempest_line st l =
           Inr (st\<lparr>read_status := 0, games := (games st)(game_key st \<mapsto> game st)\<rparr>)"
proof -
  obtain p where "str_split CHR ''='' (decode_replace (str_strip l)) = [p]"
    using assms(2) str_split_not_Nil[of "CHR ''=''" "decode_replace (str_strip l)"]
    by (auto simp: tempest_field_name_def split: list.splits)
  with assms(1) show ?thesis by (simp add: tempest_line_def)
qed

lemma tempest_line_field:
  assumes "read_status st = 1" and "tempest_field_name l = Some f"
  shows "tempest_line st l =
           (if f \<in> set tempest_allowed
            then (case tempest_field f (hd (tl (str_split CHR ''='' (decode_replace (str_strip l)))))
                         (game st) of
                    Inl e \<Rightarrow> Inl e | Inr g \<Rightarrow> Inr (st\<lparr>game := g\<rparr>))
            else Inl NameError)"
proof -
  obtain v others where sp: "str_split CHR ''='' (decode_replace (str_strip l)) = f # v # others"
    using assms(2) by (auto simp: tempest_field_name_def split: list.splits)
  show ?thesis
    using assms(1) sp tempest_field_not_allowed[of f v "game st"]
    by (simp add: tempest_line_def)
qed

lemma tempest_line_field_ok:
  assumes "read_status st = 1" and "tempest_field_name l = Some f" and "f \<in> set tempest_allowed"
  shows "\<exists>g. tempest_line st l = Inr (st\<lparr>game := g\<rparr>)"
proof -
  obtain g where "tempest_field f (hd (tl (str_split CHR ''='' (decode_replace (str_strip l)))))
      (game st) = Inr g"
    using tempest_field_allowed[OF assms(3)] by blast
  then have "tempest_line st l = Inr (st\<lparr>game := g\<rparr>)"
    using tempest_line_field[OF assms(1,2)] assms(3) by simp
  then show ?thesis by blast
qed

lemma tempest_line_field_bad:
  assumes "read_status st = 1" and "tempest_field_name l = Some f" and "f \<notin> set tempest_allowed"
  shows "tempest_line st l = Inl NameError"
  using tempest_line_field[OF assms(1,2)] assms(3) by simp

lemma tempest_lines_append:
  "tempest_lines st (xs @ ys) =
     (case tempest_lines st xs of Inl e \<Rightarrow> Inl e | Inr st' \<Rightarrow> tempest_lines st' ys)"
  by (induction xs arbitrary: st) (auto split: sum.splits)

lemma tempest_line_status:
  assumes "read_status st \<le> 1" and "tempest_line st l = Inr st'"
  shows "read_status st' \<le> 1"
proof (cases "read_status st = 0")
  case True
  with assms(2) show ?thesis by (auto simp: tempest_line_seek split: option.splits)
next
  case False
  with assms(1) have one: "read_status st = 1" by simp
  show ?thesis
  proof (cases "tempest_field_name l")
    case None
    with assms(2) one show ?thesis by (auto simp: tempest_line_close)
  next
    case (Some f)
    with assms(2) one show ?thesis
      by (auto simp: tempest_line_field split: if_splits sum.splits)
  qed
qed

lemma tempest_lines_allowed:
  assumes "read_status st \<le> 1"
    and "\<forall>l \<in> set ls. \<forall>f. tempest_field_name l = Some f \<longrightarrow> f \<in> set tempest_allowed"
  shows "\<exists>st'. tempest_lines st ls = Inr st'"
  using assms
proof (induction ls arbitrary: st)
  case Nil
  show ?case by simp
next
  case (Cons l ls)
  have "\<exists>st1. tempest_line st l = Inr st1"
  proof (cases "read_status st = 0")
    case True
    then show ?thesis by (simp add: tempest_line_seek split: option.splits)
  next
    case False
    with Cons.prems(1) have one: "read_status st = 1" by simp
    show ?thesis
    proof (cases "tempest_field_name l")
      case None
      with one show ?thesis by (simp add: tempest_line_close)
    next
      case (Some f)
      with Cons.prems(2) have "f \<in> set tempest_allowed" by simp
      from tempest_line_field_ok[OF one Some this] show ?thesis by blast
    qed
  qed
  then obtain st1 where st1: "tempest_line st l = Inr st1" by blast
  from tempest_line_status[OF Cons.prems(1) st1] have "read_status st1 \<le> 1" .
  from Cons.IH[OF this] Cons.prems(2) st1 show ?case by simp
qed

lemma tempest_lines_fields:
  assumes "read_status st = 1"
    and "\<forall>l \<in> set ls. \<exists>f. tempest_field_name l = Some f \<and> f \<in> set tempest_allowed"
  shows "\<exists>g. tempest_lines st ls = Inr (st\<lparr>game := g\<rparr>)"
  using assms
proof (induction ls arbitrary: st)
  case Nil
  have "st = st\<lparr>game := game st\<rparr>" by simp
  then show ?case by (metis tempest_lines.simps(1))
next
  case (Cons l ls)
  from Cons.prems(2) obtain f where f: "tempest_field_name l = Some f" "f \<in> set tempest_allowed"
    by auto
  from tempest_line_field_ok[OF Cons.prems(1) f] obtain g
    where g: "tempest_line st l = Inr (st\<lparr>game := g\<rparr>)" by blast
  have "read_status (st\<lparr>game := g\<rparr>) = 1" using Cons.prems(1) by simp
  from Cons.IH[OF this] Cons.prems(2) obtain g'
    where "tempest_lines (st\<lparr>game := g\<rparr>) ls = Inr (st\<lparr>game := g, game := g'\<rparr>)" by auto
  with g show ?case by auto
qed

lemma str_split_append:
  "sep \<notin> set a \<Longrightarrow> str_split sep (a @ sep # rest) = a # str_split sep rest"
proof (induction a)
  case Nil
  show ?case by simp
next
  case (Cons c a)
  then show ?case by auto
qed

lemma tempest_field_name_padded:
  assumes "decode_replace (str_strip l) = n @ '' = '' @ v" and "CHR ''='' \<notin> set n"
  shows "tempest_field_name l = Some (n @ '' '')"
proof -
  have "n @ '' = '' @ v = (n @ '' '') @ CHR ''='' # ('' '' @ v)" by simp
  moreover have "CHR ''='' \<notin> set (n @ '' '')" using assms(2) by simp
  ultimately have "str_split CHR ''='' (n @ '' = '' @ v) =
      (n @ '' '') # str_split CHR ''='' ('' '' @ v)"
    using str_split_append[of "CHR ''=''" "n @ '' ''" "'' '' @ v"] by simp
  moreover obtain p ps where "str_split CHR ''='' ('' '' @ v) = p # ps"
    using str_split_not_Nil[of "CHR ''=''" "'' '' @ v"] by (cases "str_split CHR ''='' ('' '' @ v)") auto
  ultimately show ?thesis using assms(1) by (simp add: tempest_field_name_def)
qed

lemma tempest_allowed_no_blank: "n @ '' '' \<notin> set tempest_allowed"
proof
  assume a: "n @ '' '' \<in> set tempest_allowed"
  have "\<forall>f \<in> set tempest_allowed. last f \<noteq> CHR '' ''" by (simp add: tempest_allowed_def)
  with a have "last (n @ '' '') \<noteq> CHR '' ''" by blast
  then show False by simp
qed

text \<open>
  C5 (as amended).  The field name of a line is the text before the first \<open>=\<close> of
  the stripped line, as it stands.  For an existing file that opens: a line read in
  the field-reading state whose field name is outside the allow-list makes the load
  raise \<open>NameError\<close>; when every line that carries a field name carries one of the
  allow-list, the load returns a mapping and raises nothing; and a line written
  \<open>name = value\<close>, with a blank before \<open>=\<close>, has the field name \<open>name\<close> followed by
  that blank, which is never on the allow-list.
\<close>

theorem tempest_unknown_field_is_fatal:
  assumes "ini_exists file_FN" and "ini_open file_FN = Inr file_lines"
  shows "(\<forall>pre l post st f.
            file_lines = pre @ l # post \<and> tempest_lines tempest_init pre = Inr st \<and>
            read_status st = 1 \<and> tempest_field_name l = Some f \<and> f \<notin> set tempest_allowed
            \<longrightarrow> audit_load_Tempest_INI file_FN = Inl NameError) \<and>
         ((\<forall>l \<in> set file_lines. \<forall>f. tempest_field_name l = Some f \<longrightarrow> f \<in> set tempest_allowed)
            \<longrightarrow> (\<exists>d. audit_load_Tempest_INI file_FN = Inr d)) \<and>
         (\<forall>l n v. decode_replace (str_strip l) = n @ '' = '' @ v \<and> CHR ''='' \<notin> set n
            \<longrightarrow> tempest_field_name l = Some (n @ '' '') \<and> n @ '' '' \<notin> set tempest_allowed)"
proof (intro conjI allI impI)
  fix pre l post st f
  assume a: "file_lines = pre @ l # post \<and> tempest_lines tempest_init pre = Inr st \<and>
            read_status st = 1 \<and> tempest_field_name l = Some f \<and> f \<notin> set tempest_allowed"
  then have "tempest_line st l = Inl NameError" by (simp add: tempest_line_field_bad)
  with a have "tempest_lines tempest_init file_lines = Inl NameError"
    by (simp add: tempest_lines_append)
  with assms show "audit_load_Tempest_INI file_FN = Inl NameError"
    by (simp add: audit_load_Tempest_INI_def)
next
  assume "\<forall>l \<in> set file_lines. \<forall>f. tempest_field_name l = Some f \<longrightarrow> f \<in> set tempest_allowed"
  moreover have "read_status tempest_init \<le> 1" by (simp add: tempest_init_def)
  ultimately obtain st' where "tempest_lines tempest_init file_lines = Inr st'"
    using tempest_lines_allowed by blast
  with assms show "\<exists>d. audit_load_Tempest_INI file_FN = Inr d"
    by (simp add: audit_load_Tempest_INI_def)
next
  fix l n v
  assume "decode_replace (str_strip l) = n @ '' = '' @ v \<and> CHR ''='' \<notin> set n"
  then show "tempest_field_name l = Some (n @ '' '')" by (simp add: tempest_field_name_padded)
next
  fix l n v
  show "n @ '' '' \<notin> set tempest_allowed" by (rule tempest_allowed_no_blank)
qed

text \<open>
  C5 as stated fails: the line \<open>Publisher = Nintendo\<close> of a section carries the
  allow-listed name \<open>Publisher\<close>, and the load raises \<open>NameError\<close>.
\<close>

theorem tempest_padded_field_is_fatal:
  "''Publisher'' \<in> set tempest_allowed \<and>
   audit_load_Tempest_INI tempest_example_padded = Inl NameError"
  by (simp add: tempest_allowed_def audit_load_Tempest_INI_def tempest_example_padded_def
      tempest_init_def tempest_line_def str_strip_def str_isspace_def decode_replace_def
      match_section_here_def tempest_field_def Let_def)

text \<open>
  C10.  When the file ends inside a section (a header line followed only by
  well-formed field lines of the allow-list), the returned mapping is the one built
  from the sections closed before that header: the open section is not committed.
  The same file with one more line that is not a field assignment (an empty line)
  does commit it.
\<close>

theorem tempest_open_section_not_committed:
  assumes "ini_exists file_FN"
    and "ini_open file_FN = Inr (pre @ header # field_lines)"
    and "tempest_lines tempest_init pre = Inr st"
    and "read_status st = 0"
    and "re_search_section (decode_replace (str_strip header)) = Some key"
    and "\<forall>l \<in> set field_lines. \<exists>f. tempest_field_name l = Some f \<and> f \<in> set tempest_allowed"
  shows "audit_load_Tempest_INI file_FN = Inr (games st) \<and>
         (\<exists>g. audit_load_Tempest_INI (file_FN\<lparr>ini_open := Inr (pre @ header # field_lines @ [''''])\<rparr>)
                 = Inr ((games st)(key \<mapsto> g)))"
proof -
  let ?st1 = "st\<lparr>game := audit_new_rom_GameDB(''name'' \<mapsto> key), game_key := key,
                 read_status := 1\<rparr>"
  have h: "tempest_line st header = Inr ?st1"
    using assms(4,5) by (simp add: tempest_line_seek)
  have "read_status ?st1 = 1" by simp
  from tempest_lines_fields[OF this assms(6)] obtain g
    where g: "tempest_lines ?st1 field_lines = Inr (?st1\<lparr>game := g\<rparr>)" by blast
  have all: "tempest_lines tempest_init (pre @ header # field_lines) = Inr (?st1\<lparr>game := g\<rparr>)"
    using assms(3) h g by (simp add: tempest_lines_append)
  have blank: "tempest_field_name '''' = None"
    by (simp add: tempest_field_name_def str_strip_def decode_replace_def)
  have "tempest_lines tempest_init ((pre @ header # field_lines) @ ['''']) =
          Inr (?st1\<lparr>game := g, read_status := 0, games := (games st)(key \<mapsto> g)\<rparr>)"
    unfolding tempest_lines_append[of _ "pre @ header # field_lines"] all
    by (simp add: tempest_line_close blank)
  with all assms(1,2) show ?thesis
    by (auto simp: audit_load_Tempest_INI_def)
qed

lemma tempest_example_header: "re_search_section (decode_replace (str_strip (''[Doom]'' @ [CHR 0x0A]))) = Some ''Doom''"
  by (simp add: str_strip_def str_isspace_def decode_replace_def match_section_here_def)

lemma tempest_example_field: "tempest_field_name (''Publisher=id Software'' @ [CHR 0x0A]) = Some ''Publisher''"
  by (simp add: tempest_field_name_def str_strip_def str_isspace_def decode_replace_def)

lemma tempest_example_field_bad: "tempest_field_name (''Engine=idTech'' @ [CHR 0x0A]) = Some ''Engine''"
  by (simp add: tempest_field_name_def str_strip_def str_isspace_def decode_replace_def)

lemma tempest_example_blank: "tempest_field_name [CHR 0x0A] = None"
  by (simp add: tempest_field_name_def str_strip_def str_isspace_def decode_replace_def)


lemma tempest_example_header_state:
  "tempest_lines tempest_init [''[Doom]'' @ [CHR 0x0A]] =
     Inr (tempest_init\<lparr>game := audit_new_rom_GameDB(''name'' \<mapsto> ''Doom''), game_key := ''Doom'',
                        read_status := 1\<rparr>)"
  using tempest_example_header by (simp add: tempest_line_seek tempest_init_def)

theorem tempest_unknown_field_is_fatal_witness:
  "ini_exists tempest_example_bad \<and>
   tempest_field_name (''Engine=idTech'' @ [CHR 0x0A]) = Some ''Engine'' \<and>
   ''Engine'' \<notin> set tempest_allowed \<and>
   audit_load_Tempest_INI tempest_example_bad = Inl NameError \<and>
   ini_exists tempest_example_open \<and>
   (\<exists>d. audit_load_Tempest_INI tempest_example_open = Inr d)"
proof -
  let ?hdr = "''[Doom]'' @ [CHR 0x0A]"
  let ?bad = "''Engine=idTech'' @ [CHR 0x0A]"
  let ?ok = "''Publisher=id Software'' @ [CHR 0x0A]"
  let ?st1 = "tempest_init\<lparr>game := audit_new_rom_GameDB(''name'' \<mapsto> ''Doom''),
                game_key := ''Doom'', read_status := 1\<rparr>"
  have e: "ini_exists tempest_example_bad"
      "ini_open tempest_example_bad = Inr [?hdr, ?bad, [CHR 0x0A]]"
    by (simp_all add: tempest_example_bad_def)
  have notin: "''Engine'' \<notin> set tempest_allowed" by (simp add: tempest_allowed_def)
  have hyp: "[?hdr, ?bad, [CHR 0x0A]] = [?hdr] @ ?bad # [[CHR 0x0A]] \<and>
             tempest_lines tempest_init [?hdr] = Inr ?st1 \<and> read_status ?st1 = 1 \<and>
             tempest_field_name ?bad = Some ''Engine'' \<and> ''Engine'' \<notin> set tempest_allowed"
    using tempest_example_header_state tempest_example_field_bad notin by simp
  have bad: "audit_load_Tempest_INI tempest_example_bad = Inl NameError"
    using tempest_unknown_field_is_fatal[OF e] hyp by blast
  have o: "ini_exists tempest_example_open"
      "ini_open tempest_example_open = Inr [?hdr, ?ok]"
    by (simp_all add: tempest_example_open_def)
  have hdr_none: "tempest_field_name ?hdr = None"
    by (simp add: tempest_field_name_def str_strip_def str_isspace_def decode_replace_def)
  have "\<forall>l \<in> set [?hdr, ?ok]. \<forall>f. tempest_field_name l = Some f \<longrightarrow> f \<in> set tempest_allowed"
    using hdr_none tempest_example_field by (simp add: tempest_allowed_def)
  then have good: "\<exists>d. audit_load_Tempest_INI tempest_example_open = Inr d"
    using tempest_unknown_field_is_fatal[OF o] by blast
  from e(1) tempest_example_field_bad notin bad o(1) good show ?thesis by simp
qed

theorem tempest_open_section_not_committed_witness:
  "ini_exists tempest_example_open \<and>
   re_search_section (decode_replace (str_strip (''[Doom]'' @ [CHR 0x0A]))) = Some ''Doom'' \<and>
   tempest_field_name (''Publisher=id Software'' @ [CHR 0x0A]) = Some ''Publisher'' \<and>
   audit_load_Tempest_INI tempest_example_open = Inr Map.empty"
proof -
  let ?hdr = "''[Doom]'' @ [CHR 0x0A]"
  let ?ok = "''Publisher=id Software'' @ [CHR 0x0A]"
  have o: "ini_exists tempest_example_open"
      "ini_open tempest_example_open = Inr ([] @ ?hdr # [?ok])"
    by (simp_all add: tempest_example_open_def)
  have st: "tempest_lines tempest_init [] = Inr tempest_init" "read_status tempest_init = 0"
    by (simp_all add: tempest_init_def)
  have fl: "\<forall>l \<in> set [?ok]. \<exists>f. tempest_field_name l = Some f \<and> f \<in> set tempest_allowed"
    using tempest_example_field by (simp add: tempest_allowed_def)
  have "audit_load_Tempest_INI tempest_example_open = Inr (games tempest_init)"
    using tempest_open_section_not_committed[OF o st tempest_example_header fl] by simp
  then have "audit_load_Tempest_INI tempest_example_open = Inr Map.empty"
    by (simp add: tempest_init_def)
  with o(1) tempest_example_header tempest_example_field show ?thesis by simp
qed

text \<open>
  The field name is the text before the first \<open>=\<close> as it stands: blanks written
  around \<open>=\<close> stay in it, and such a name is not on the allow-list.
\<close>

lemma tempest_field_name_keeps_blanks:
  "tempest_field_name ''Publisher = Nintendo'' = Some ''Publisher '' \<and>
   ''Publisher '' \<notin> set tempest_allowed"
  by (simp add: tempest_field_name_def str_strip_def str_isspace_def decode_replace_def
      tempest_allowed_def)

section \<open>Properties of the file name tokenizer\<close>

lemma re_scan_Nil: "re_scan [] = []"
  by (simp add: re_scan.simps)

lemma re_scan_match:
  "match_token s = Some (t, r) \<Longrightarrow> re_scan s = Token t # re_scan r"
  using match_token_splits[of s t r] by (subst re_scan.simps) auto

lemma re_scan_skip:
  "s \<noteq> [] \<Longrightarrow> match_token s = None \<Longrightarrow> re_scan s = Skipped (hd s) # re_scan (tl s)"
  by (subst re_scan.simps) simp

lemma match_token_None_opener:
  assumes "s \<noteq> []" and "match_token s = None"
  shows "is_opener (hd s)"
proof (rule ccontr)
  assume "\<not> is_opener (hd s)"
  with assms(1) have "takeWhile (\<lambda>c. \<not> is_opener c) s \<noteq> []" by (cases s) auto
  then have "re_run s \<noteq> None" by (simp add: re_run_def)
  with assms(2) show False by (auto simp: match_token_def split: option.splits)
qed

lemma re_scan_partition: "concat (map item_text (re_scan s)) = s"
proof (induction s rule: re_scan.induct)
  case (1 s)
  show ?case
  proof (cases "s = []")
    case True
    then show ?thesis by (simp add: re_scan_Nil)
  next
    case False
    show ?thesis
    proof (cases "match_token s")
      case None
      from 1(1)[OF False None] have "concat (map item_text (re_scan (tl s))) = tl s" .
      with False show ?thesis by (simp add: re_scan_skip[OF False None])
    next
      case (Some m)
      obtain t r where m: "m = (t, r)" by (cases m)
      with Some match_token_splits have "s = t @ r" by blast
      moreover from 1(2)[OF False Some m[symmetric]]
      have "concat (map item_text (re_scan r)) = r" .
      ultimately show ?thesis using Some m by (simp add: re_scan_match)
    qed
  qed
qed

lemma re_scan_skipped_opener: "Skipped c \<in> set (re_scan s) \<Longrightarrow> is_opener c"
proof (induction s rule: re_scan.induct)
  case (1 s)
  show ?case
  proof (cases "s = []")
    case True
    with 1(3) show ?thesis by (simp add: re_scan_Nil)
  next
    case False
    show ?thesis
    proof (cases "match_token s")
      case None
      from 1(3) have "c = hd s \<or> Skipped c \<in> set (re_scan (tl s))"
        by (simp add: re_scan_skip[OF False None])
      with 1(1)[OF False None] match_token_None_opener[OF False None] show ?thesis
        by blast
    next
      case (Some m)
      obtain t r where m: "m = (t, r)" by (cases m)
      with Some 1(3) have "Skipped c \<in> set (re_scan r)" by (simp add: re_scan_match)
      with 1(2)[OF False Some m[symmetric]] show ?thesis .
    qed
  qed
qed

lemma length_concat_tokens_of:
  "length (concat (tokens_of items)) + length (filter (\<lambda>i. \<exists>c. i = Skipped c) items)
     = length (concat (map item_text items))"
  by (induction items rule: tokens_of.induct) auto

lemma tokens_of_no_skip:
  "(\<forall>c. Skipped c \<notin> set items) \<Longrightarrow> concat (tokens_of items) = concat (map item_text items)"
  by (induction items rule: tokens_of.induct) auto

lemma tokens_of_subseq: "subseq (concat (tokens_of items)) (concat (map item_text items))"
proof (induction items rule: tokens_of.induct)
  case 1
  show ?case by simp
next
  case (2 t items)
  then show ?case by (simp add: list_emb_append_mono)
next
  case (3 c items)
  then show ?case by auto
qed

lemma re_group_iff:
  "re_group opener closer s = Some (t, r) \<longleftrightarrow>
     (\<exists>x body. s = opener # x # body @ closer # r \<and> t = opener # x # body @ [closer] \<and>
        x \<noteq> ch_newline \<and> (\<forall>y \<in> set body. y \<noteq> closer \<and> y \<noteq> ch_newline))"
proof
  assume a: "re_group opener closer s = Some (t, r)"
  let ?P = "\<lambda>y. y \<noteq> closer \<and> y \<noteq> ch_newline"
  obtain c x r0 where s: "s = c # x # r0"
  proof (cases s)
    case Nil
    with a show ?thesis by (simp add: re_group_def)
  next
    case (Cons c s1)
    show ?thesis
    proof (cases s1)
      case Nil
      with a Cons show ?thesis by (simp add: re_group_def)
    next
      case (Cons x r0)
      with \<open>s = c # s1\<close> that show ?thesis by simp
    qed
  qed
  from a s have c: "c = opener" "x \<noteq> ch_newline"
    by (simp_all add: re_group_def split: if_splits)
  obtain y r' where d: "dropWhile ?P r0 = y # r'"
    using a s c by (cases "dropWhile ?P r0") (simp_all add: re_group_def)
  from a s c d have y: "y = closer" and t: "t = c # x # takeWhile ?P r0 @ [closer]"
      and r: "r = r'"
    by (simp_all add: re_group_def split: if_splits)
  have "r0 = takeWhile ?P r0 @ dropWhile ?P r0" by (rule takeWhile_dropWhile_id[symmetric])
  with d y have r0: "r0 = takeWhile ?P r0 @ closer # r'" by simp
  have b: "\<forall>y \<in> set (takeWhile ?P r0). ?P y" by (auto dest: set_takeWhileD)
  have "s = opener # x # takeWhile ?P r0 @ closer # r" using s c r r0 by simp
  with t c b show "\<exists>x body. s = opener # x # body @ closer # r \<and>
      t = opener # x # body @ [closer] \<and> x \<noteq> ch_newline \<and>
      (\<forall>y \<in> set body. y \<noteq> closer \<and> y \<noteq> ch_newline)"
    by blast
next
  assume "\<exists>x body. s = opener # x # body @ closer # r \<and> t = opener # x # body @ [closer] \<and>
        x \<noteq> ch_newline \<and> (\<forall>y \<in> set body. y \<noteq> closer \<and> y \<noteq> ch_newline)"
  then obtain x body where s: "s = opener # x # body @ closer # r"
      and t: "t = opener # x # body @ [closer]" and x: "x \<noteq> ch_newline"
      and b: "\<forall>y \<in> set body. y \<noteq> closer \<and> y \<noteq> ch_newline"
    by blast
  let ?P = "\<lambda>y. y \<noteq> closer \<and> y \<noteq> ch_newline"
  from b have "takeWhile ?P (body @ closer # r) = body @ takeWhile ?P (closer # r)"
    by (intro takeWhile_append2) simp
  then have tw: "takeWhile ?P (body @ closer # r) = body" by simp
  from b have "dropWhile ?P (body @ closer # r) = dropWhile ?P (closer # r)"
    by (intro dropWhile_append2) simp
  then have dw: "dropWhile ?P (body @ closer # r) = closer # r" by simp
  show "re_group opener closer s = Some (t, r)"
    unfolding s t re_group_def using x by (simp add: tw dw)
qed

lemma re_group_hd: "re_group opener closer s = Some m \<Longrightarrow> s \<noteq> [] \<and> hd s = opener"
proof -
  assume a: "re_group opener closer s = Some m"
  obtain t r where "m = (t, r)" by (cases m)
  with a re_group_iff[of opener closer s t r] show ?thesis by auto
qed

lemma match_token_group:
  assumes "re_group opener closer s = Some (t, r)"
    and "(opener, closer) \<in> {(CHR ''['', CHR '']''), (CHR ''('', CHR '')''), (CHR ''{'', CHR ''}'')}"
  shows "match_token s = Some (t, r)"
proof -
  from re_group_hd[OF assms(1)] have h: "s \<noteq> []" "hd s = opener" by simp_all
  have other: "re_group o' c' s = None" if "o' \<noteq> opener" for o' c'
  proof (cases "re_group o' c' s")
    case None
    then show ?thesis .
  next
    case (Some m)
    from re_group_hd[OF Some] h that show ?thesis by simp
  qed
  from assms(2) consider "opener = CHR ''[''" "closer = CHR '']''"
    | "opener = CHR ''(''" "closer = CHR '')''" | "opener = CHR ''{''" "closer = CHR ''}''"
    by auto
  then show ?thesis
  proof cases
    case 1
    with assms(1) show ?thesis by (simp add: match_token_def)
  next
    case 2
    with assms(1) other[of "CHR ''[''" "CHR '']''"] show ?thesis by (simp add: match_token_def)
  next
    case 3
    with assms(1) other[of "CHR ''[''" "CHR '']''"] other[of "CHR ''(''" "CHR '')''"]
    show ?thesis by (simp add: match_token_def)
  qed
qed

lemma match_token_run:
  assumes "s \<noteq> []" and "\<not> is_opener (hd s)"
  shows "match_token s =
           Some (takeWhile (\<lambda>c. \<not> is_opener c) s, dropWhile (\<lambda>c. \<not> is_opener c) s)"
proof -
  have g: "re_group o' c' s = None" if "is_opener o'" for o' c'
  proof (cases "re_group o' c' s")
    case None
    then show ?thesis .
  next
    case (Some m)
    from re_group_hd[OF Some] assms(2) that show ?thesis by simp
  qed
  from assms have "takeWhile (\<lambda>c. \<not> is_opener c) s \<noteq> []" by (cases s) auto
  then show ?thesis
    using g[of "CHR ''[''"] g[of "CHR ''(''"] g[of "CHR ''{''"]
    by (simp add: match_token_def re_run_def is_opener_def)
qed

lemma match_token_None_iff:
  "s \<noteq> [] \<Longrightarrow>
   match_token s = None \<longleftrightarrow>
     (is_opener (hd s) \<and> re_group CHR ''['' CHR '']'' s = None \<and>
      re_group CHR ''('' CHR '')'' s = None \<and> re_group CHR ''{'' CHR ''}'' s = None)"
proof
  assume s: "s \<noteq> []" and n: "match_token s = None"
  have "is_opener (hd s)"
  proof (rule ccontr)
    assume "\<not> is_opener (hd s)"
    from match_token_run[OF s this] n show False by simp
  qed
  with n show "is_opener (hd s) \<and> re_group CHR ''['' CHR '']'' s = None \<and>
      re_group CHR ''('' CHR '')'' s = None \<and> re_group CHR ''{'' CHR ''}'' s = None"
    by (auto simp: match_token_def split: option.splits)
next
  assume s: "s \<noteq> []" and a: "is_opener (hd s) \<and> re_group CHR ''['' CHR '']'' s = None \<and>
      re_group CHR ''('' CHR '')'' s = None \<and> re_group CHR ''{'' CHR ''}'' s = None"
  with s have "takeWhile (\<lambda>c. \<not> is_opener c) s = []" by (cases s) auto
  with a show "match_token s = None" by (simp add: match_token_def re_run_def)
qed

lemma re_scan_skipped_position:
  "Skipped c \<in> set (re_scan s) \<Longrightarrow> \<exists>p u. s = p @ c # u \<and> match_token (c # u) = None"
proof (induction s rule: re_scan.induct)
  case (1 s)
  show ?case
  proof (cases "s = []")
    case True
    with 1(3) show ?thesis by (simp add: re_scan_Nil)
  next
    case False
    show ?thesis
    proof (cases "match_token s")
      case None
      from 1(3) have "c = hd s \<or> Skipped c \<in> set (re_scan (tl s))"
        by (simp add: re_scan_skip[OF False None])
      then show ?thesis
      proof
        assume "c = hd s"
        with False None have "s = [] @ c # tl s \<and> match_token (c # tl s) = None" by simp
        then show ?thesis by blast
      next
        assume "Skipped c \<in> set (re_scan (tl s))"
        from 1(1)[OF False None this] obtain p u
          where "tl s = p @ c # u" "match_token (c # u) = None" by blast
        with False have "s = (hd s # p) @ c # u \<and> match_token (c # u) = None"
          by (cases s) auto
        then show ?thesis by blast
      qed
    next
      case (Some m)
      obtain t r where m: "m = (t, r)" by (cases m)
      with Some 1(3) have "Skipped c \<in> set (re_scan r)" by (simp add: re_scan_match)
      from 1(2)[OF False Some m[symmetric] this] obtain p u
        where "r = p @ c # u" "match_token (c # u) = None" by blast
      moreover from Some m match_token_splits have "s = t @ r" by blast
      ultimately have "s = (t @ p) @ c # u \<and> match_token (c # u) = None" by simp
      then show ?thesis by blast
    qed
  qed
qed

text \<open>
  C6 (as amended).  The scan of \<open>re.findall\<close> cuts the input, in order, into tokens
  and single left-out characters.  A bracket group is an opening bracket, one
  character and then as few more as possible, none of them a newline, and the
  closing bracket.  Where a bracket group matches at the scan position it is the
  next token; at a character that is no opening bracket the longest run without
  opening brackets is the next token; an opening bracket at which no bracket group
  matches is left out, and nothing else is.  So the raw tokens, concatenated, are
  the input without those opening brackets, and they give back the input exactly
  when there is none, in particular when the input has no opening bracket.
\<close>

theorem tokens_raw_concat:
  "concat (map item_text (re_scan s)) = s \<and>
   subseq (concat (tokens_raw s)) s \<and>
   (\<forall>c. Skipped c \<in> set (re_scan s) \<longrightarrow> c = CHR ''['' \<or> c = CHR ''('' \<or> c = CHR ''{'') \<and>
   (concat (tokens_raw s) = s \<longleftrightarrow> (\<forall>c. Skipped c \<notin> set (re_scan s))) \<and>
   ((\<forall>c \<in> set s. c \<noteq> CHR ''['' \<and> c \<noteq> CHR ''('' \<and> c \<noteq> CHR ''{'') \<longrightarrow> concat (tokens_raw s) = s) \<and>
   (\<forall>c. Skipped c \<in> set (re_scan s) \<longrightarrow>
      (\<exists>p u. s = p @ c # u \<and> re_group CHR ''['' CHR '']'' (c # u) = None \<and>
             re_group CHR ''('' CHR '')'' (c # u) = None \<and>
             re_group CHR ''{'' CHR ''}'' (c # u) = None)) \<and>
   (\<forall>opener closer t r.
      (opener, closer) \<in> {(CHR ''['', CHR '']''), (CHR ''('', CHR '')''), (CHR ''{'', CHR ''}'')} \<and>
      re_group opener closer s = Some (t, r) \<longrightarrow>
      re_scan s = Token t # re_scan r \<and> tokens_raw s = t # tokens_raw r) \<and>
   (s \<noteq> [] \<and> \<not> is_opener (hd s) \<longrightarrow>
      tokens_raw s = takeWhile (\<lambda>c. \<not> is_opener c) s
                      # tokens_raw (dropWhile (\<lambda>c. \<not> is_opener c) s)) \<and>
   (s \<noteq> [] \<and> is_opener (hd s) \<and> re_group CHR ''['' CHR '']'' s = None \<and>
      re_group CHR ''('' CHR '')'' s = None \<and> re_group CHR ''{'' CHR ''}'' s = None \<longrightarrow>
      re_scan s = Skipped (hd s) # re_scan (tl s) \<and> tokens_raw s = tokens_raw (tl s)) \<and>
   (\<forall>opener closer t r.
      re_group opener closer s = Some (t, r) \<longleftrightarrow>
        (\<exists>x body. s = opener # x # body @ closer # r \<and> t = opener # x # body @ [closer] \<and>
           x \<noteq> ch_newline \<and> (\<forall>y \<in> set body. y \<noteq> closer \<and> y \<noteq> ch_newline)))"
proof -
  have part: "concat (map item_text (re_scan s)) = s" by (rule re_scan_partition)
  have sub: "subseq (concat (tokens_raw s)) s"
    using tokens_of_subseq[of "re_scan s"] by (simp add: tokens_raw_def re_findall_def part)
  have op: "\<forall>c. Skipped c \<in> set (re_scan s) \<longrightarrow> c = CHR ''['' \<or> c = CHR ''('' \<or> c = CHR ''{''"
    using re_scan_skipped_opener by (auto simp: is_opener_def)
  have iff: "concat (tokens_raw s) = s \<longleftrightarrow> (\<forall>c. Skipped c \<notin> set (re_scan s))"
  proof
    assume "concat (tokens_raw s) = s"
    with length_concat_tokens_of[of "re_scan s"]
    have "filter (\<lambda>i. \<exists>c. i = Skipped c) (re_scan s) = []"
      by (simp add: tokens_raw_def re_findall_def part)
    then show "\<forall>c. Skipped c \<notin> set (re_scan s)" by (auto simp: filter_empty_conv)
  next
    assume "\<forall>c. Skipped c \<notin> set (re_scan s)"
    from tokens_of_no_skip[OF this] show "concat (tokens_raw s) = s"
      by (simp add: tokens_raw_def re_findall_def part)
  qed
  have noop: "(\<forall>c \<in> set s. c \<noteq> CHR ''['' \<and> c \<noteq> CHR ''('' \<and> c \<noteq> CHR ''{'') \<longrightarrow> concat (tokens_raw s) = s"
  proof
    assume a: "\<forall>c \<in> set s. c \<noteq> CHR ''['' \<and> c \<noteq> CHR ''('' \<and> c \<noteq> CHR ''{''"
    have "\<forall>c. Skipped c \<notin> set (re_scan s)"
    proof (intro allI notI)
      fix c assume sk: "Skipped c \<in> set (re_scan s)"
      then have "c \<in> set (concat (map item_text (re_scan s)))"
        by (auto intro!: bexI[of _ "Skipped c"])
      with part have "c \<in> set s" by simp
      with a op sk show False by blast
    qed
    with iff show "concat (tokens_raw s) = s" by simp
  qed
  have pos: "\<forall>c. Skipped c \<in> set (re_scan s) \<longrightarrow>
      (\<exists>p u. s = p @ c # u \<and> re_group CHR ''['' CHR '']'' (c # u) = None \<and>
             re_group CHR ''('' CHR '')'' (c # u) = None \<and>
             re_group CHR ''{'' CHR ''}'' (c # u) = None)"
  proof (intro allI impI)
    fix c assume "Skipped c \<in> set (re_scan s)"
    from re_scan_skipped_position[OF this] obtain p u
      where pu: "s = p @ c # u" "match_token (c # u) = None" by blast
    from pu(2) match_token_None_iff[of "c # u"]
    have "re_group CHR ''['' CHR '']'' (c # u) = None \<and>
          re_group CHR ''('' CHR '')'' (c # u) = None \<and>
          re_group CHR ''{'' CHR ''}'' (c # u) = None" by simp
    with pu(1) show "\<exists>p u. s = p @ c # u \<and> re_group CHR ''['' CHR '']'' (c # u) = None \<and>
             re_group CHR ''('' CHR '')'' (c # u) = None \<and>
             re_group CHR ''{'' CHR ''}'' (c # u) = None" by blast
  qed
  have grp: "\<forall>opener closer t r.
      (opener, closer) \<in> {(CHR ''['', CHR '']''), (CHR ''('', CHR '')''), (CHR ''{'', CHR ''}'')} \<and>
      re_group opener closer s = Some (t, r) \<longrightarrow>
      re_scan s = Token t # re_scan r \<and> tokens_raw s = t # tokens_raw r"
  proof (intro allI impI)
    fix opener closer t r
    assume a: "(opener, closer) \<in> {(CHR ''['', CHR '']''), (CHR ''('', CHR '')''), (CHR ''{'', CHR ''}'')} \<and>
      re_group opener closer s = Some (t, r)"
    then have "match_token s = Some (t, r)" using match_token_group by blast
    from re_scan_match[OF this]
    show "re_scan s = Token t # re_scan r \<and> tokens_raw s = t # tokens_raw r"
      by (simp add: tokens_raw_def re_findall_def)
  qed
  have run: "s \<noteq> [] \<and> \<not> is_opener (hd s) \<longrightarrow>
      tokens_raw s = takeWhile (\<lambda>c. \<not> is_opener c) s
                      # tokens_raw (dropWhile (\<lambda>c. \<not> is_opener c) s)"
  proof
    assume "s \<noteq> [] \<and> \<not> is_opener (hd s)"
    then have "match_token s =
        Some (takeWhile (\<lambda>c. \<not> is_opener c) s, dropWhile (\<lambda>c. \<not> is_opener c) s)"
      using match_token_run by blast
    from re_scan_match[OF this]
    show "tokens_raw s = takeWhile (\<lambda>c. \<not> is_opener c) s
                      # tokens_raw (dropWhile (\<lambda>c. \<not> is_opener c) s)"
      by (simp add: tokens_raw_def re_findall_def)
  qed
  have skip: "s \<noteq> [] \<and> is_opener (hd s) \<and> re_group CHR ''['' CHR '']'' s = None \<and>
      re_group CHR ''('' CHR '')'' s = None \<and> re_group CHR ''{'' CHR ''}'' s = None \<longrightarrow>
      re_scan s = Skipped (hd s) # re_scan (tl s) \<and> tokens_raw s = tokens_raw (tl s)"
  proof
    assume a: "s \<noteq> [] \<and> is_opener (hd s) \<and> re_group CHR ''['' CHR '']'' s = None \<and>
      re_group CHR ''('' CHR '')'' s = None \<and> re_group CHR ''{'' CHR ''}'' s = None"
    then have s: "s \<noteq> []" by simp
    from a match_token_None_iff[OF s] have "match_token s = None" by simp
    from re_scan_skip[OF s this]
    show "re_scan s = Skipped (hd s) # re_scan (tl s) \<and> tokens_raw s = tokens_raw (tl s)"
      by (simp add: tokens_raw_def re_findall_def)
  qed
  have grp_iff: "\<forall>opener closer t r.
      re_group opener closer s = Some (t, r) \<longleftrightarrow>
        (\<exists>x body. s = opener # x # body @ closer # r \<and> t = opener # x # body @ [closer] \<and>
           x \<noteq> ch_newline \<and> (\<forall>y \<in> set body. y \<noteq> closer \<and> y \<noteq> ch_newline))"
    by (intro allI) (rule re_group_iff)
  from part sub op iff noop pos grp run skip grp_iff show ?thesis by (intro conjI)
qed

text \<open>
  C6 as stated fails: in \<open>[abc\<close> the bracket is never closed, no alternative matches
  at it, and the only raw token is \<open>abc\<close>.
\<close>

theorem tokens_raw_drops_unmatched_bracket:
  "tokens_raw ''[abc'' = [''abc''] \<and> concat (tokens_raw ''[abc'') \<noteq> ''[abc''"
  by (simp add: tokens_raw_def re_findall_def re_scan.simps match_token_def re_group_def
      re_run_def is_opener_def ch_newline_def)

lemma re_scan_sonic:
  "re_scan ''Sonic (USA) [!]'' = [Token ''Sonic '', Token ''(USA)'', Token '' '', Token ''[!]'']"
  by (simp add: re_scan.simps match_token_def re_group_def re_run_def is_opener_def
      ch_newline_def)

theorem tokens_raw_concat_witness:
  "tokens_raw ''Sonic (USA) [!]'' = [''Sonic '', ''(USA)'', '' '', ''[!]''] \<and>
   concat (tokens_raw ''Sonic (USA) [!]'') = ''Sonic (USA) [!]'' \<and>
   re_group CHR ''('' CHR '')'' ''(USA) [!]'' = Some (''(USA)'', '' [!]'') \<and>
   tokens_raw ''(USA) [!]'' = ''(USA)'' # tokens_raw '' [!]'' \<and>
   Skipped CHR ''['' \<in> set (re_scan ''[abc'') \<and>
   re_group CHR ''['' CHR '']'' ''[abc'' = None \<and>
   concat (tokens_raw ''[abc'') \<noteq> ''[abc''"
proof -
  note sonic = tokens_raw_concat[of "''Sonic (USA) [!]''"]
  note usa = tokens_raw_concat[of "''(USA) [!]''"]
  note abc = tokens_raw_concat[of "''[abc''"]
  have t: "tokens_raw ''Sonic (USA) [!]'' = [''Sonic '', ''(USA)'', '' '', ''[!]'']"
    by (simp add: tokens_raw_def re_findall_def re_scan_sonic)
  have "\<forall>c. Skipped c \<notin> set (re_scan ''Sonic (USA) [!]'')" by (simp add: re_scan_sonic)
  with sonic[THEN conjunct2, THEN conjunct2, THEN conjunct2, THEN conjunct1]
  have b: "concat (tokens_raw ''Sonic (USA) [!]'') = ''Sonic (USA) [!]''" by simp
  have g: "re_group CHR ''('' CHR '')'' ''(USA) [!]'' = Some (''(USA)'', '' [!]'')"
    by (simp add: re_group_def ch_newline_def)
  have "(CHR ''('', CHR '')'') \<in> {(CHR ''['', CHR '']''), (CHR ''('', CHR '')''), (CHR ''{'', CHR ''}'')}"
    by simp
  with g usa[THEN conjunct2, THEN conjunct2, THEN conjunct2, THEN conjunct2, THEN conjunct2,
      THEN conjunct2, THEN conjunct1, rule_format, of "CHR ''(''" "CHR '')''" "''(USA)''" "'' [!]''"]
  have u: "tokens_raw ''(USA) [!]'' = ''(USA)'' # tokens_raw '' [!]''" by simp
  have c: "Skipped CHR ''['' \<in> set (re_scan ''[abc'')"
    by (simp add: re_scan.simps match_token_def re_group_def re_run_def is_opener_def
        ch_newline_def)
  have n: "re_group CHR ''['' CHR '']'' ''[abc'' = None"
    by (simp add: re_group_def ch_newline_def)
  from c abc[THEN conjunct2, THEN conjunct2, THEN conjunct2, THEN conjunct1]
  have d: "concat (tokens_raw ''[abc'') \<noteq> ''[abc''" by blast
  from t b g u c n d show ?thesis by (intro conjI)
qed

section \<open>Properties of multi-disc detection\<close>



lemmas tok_simps = tokens_raw_def re_findall_def re_scan.simps match_token_def re_group_def
      re_run_def is_opener_def ch_newline_def text_get_ROM_basename_tokens_def
      unicode_strip_def unicode_isspace_def

lemma mario_tokens:
  "text_get_ROM_basename_tokens ''Super Mario Bros (USA) (Disc 1 of 2)''
     = [''Super Mario Bros'', ''(USA)'', ''(Disc 1 of 2)'']"
  by (simp add: tok_simps)

lemma sonic_tokens:
  "text_get_ROM_basename_tokens ''Sonic The Hedgehog (USA)'' = [''Sonic The Hedgehog'', ''(USA)'']"
  by (simp add: tok_simps)

lemmas fn_simps = FileName_def getBase_def getBaseNoExt_def getExt_def os_path_basename_def
  os_path_splitext_def Let_def

lemma mario_names:
  "getBaseNoExt (FileName ''Super Mario Bros (USA) (Disc 1 of 2).zip'') = ''Super Mario Bros (USA) (Disc 1 of 2)''"
  "getExt (FileName ''Super Mario Bros (USA) (Disc 1 of 2).zip'') = ''.zip''"
  "getBase (FileName ''Super Mario Bros (USA) (Disc 1 of 2).zip'') = ''Super Mario Bros (USA) (Disc 1 of 2).zip''"
  by (simp_all add: fn_simps)

lemma sonic_names:
  "getBaseNoExt (FileName ''Sonic The Hedgehog (USA).zip'') = ''Sonic The Hedgehog (USA)''"
  "getExt (FileName ''Sonic The Hedgehog (USA).zip'') = ''.zip''"
  "getBase (FileName ''Sonic The Hedgehog (USA).zip'') = ''Sonic The Hedgehog (USA).zip''"
  by (simp_all add: fn_simps)

lemma mario_fields:
  "multidisc_fields (FileName ''Super Mario Bros (USA) (Disc 1 of 2).zip'') =
     \<lparr>ROM_FN = FileName ''Super Mario Bros (USA) (Disc 1 of 2).zip'', isMultiDisc = True,
      setName = ''Super Mario Bros (USA).zip'',
      discName = ''Super Mario Bros (USA) (Disc 1 of 2).zip'', extension = ''.zip'', order = 1\<rparr>"
  by (simp add: multidisc_fields_def MultiDiscInfo_init_def mario_names mario_tokens
      re_match_redump_def re_match_tosec_def is_digit_def int_of_digits_def upt_rec
      numeral_2_eq_2 numeral_3_eq_3)

text \<open>
  C7.  For \<open>Super Mario Bros (USA) (Disc 1 of 2).zip\<close> the detection computes the
  fields the claim names (multi-disc, order 1, set name
  \<open>Super Mario Bros (USA).zip\<close>), but the function does not return them: formatting
  the first debug message calls the missing method \<open>getBase_noext\<close> and raises
  \<open>AttributeError\<close>.  For \<open>Sonic The Hedgehog (USA).zip\<close> no marker is found and the
  object is returned with \<open>isMultiDisc\<close> false and an empty set name.
\<close>

theorem multidisc_marker_raises_AttributeError:
  "multidisc_fields (FileName ''Super Mario Bros (USA) (Disc 1 of 2).zip'') =
     \<lparr>ROM_FN = FileName ''Super Mario Bros (USA) (Disc 1 of 2).zip'', isMultiDisc = True,
      setName = ''Super Mario Bros (USA).zip'',
      discName = ''Super Mario Bros (USA) (Disc 1 of 2).zip'', extension = ''.zip'', order = 1\<rparr> \<and>
   text_get_multidisc_info (FileName ''Super Mario Bros (USA) (Disc 1 of 2).zip'') = Inl AttributeError \<and>
   text_get_multidisc_info (FileName ''Sonic The Hedgehog (USA).zip'') =
     Inr \<lparr>ROM_FN = FileName ''Sonic The Hedgehog (USA).zip'', isMultiDisc = False,
          setName = '''', discName = ''Sonic The Hedgehog (USA).zip'', extension = ''.zip'',
          order = 0\<rparr>"
  by (simp add: text_get_multidisc_info_def mario_fields)
     (simp add: multidisc_fields_def MultiDiscInfo_init_def sonic_names sonic_tokens
      re_match_redump_def re_match_tosec_def)


section \<open>Properties of the checksum computation\<close>



lemma chunks_Nil: "chunks n [] = []"
  by (simp add: chunks.simps)

lemma chunks_Cons:
  "0 < n \<Longrightarrow> xs \<noteq> [] \<Longrightarrow> chunks n xs = take n xs # chunks n (drop n xs)"
  by (subst chunks.simps) simp

lemma concat_chunks: "0 < n \<Longrightarrow> concat (chunks n xs) = xs"
proof (induction n xs rule: chunks.induct)
  case (1 n xs)
  show ?case
  proof (cases "xs = []")
    case True
    then show ?thesis by (simp add: chunks_Nil)
  next
    case False
    with 1 show ?thesis by (simp add: chunks_Cons)
  qed
qed

text \<open>The loop: it fails exactly when the failing read is among the calls it makes.\<close>

lemma checksum_pieces_eq:
  "checksum_pieces \<lparr>unread = d, raises_at = r\<rparr> c m s =
     (if (case r of None \<Rightarrow> False | Some k \<Rightarrow> k \<le> length (chunks 8192 d))
      then Inl IOError
      else Inr (foldl (\<lambda>crc piece. zlib_crc32 piece crc) c (chunks 8192 d), m @ d, s @ d))"
proof (induction d arbitrary: r c m s rule: length_induct)
  case (1 d)
  show ?case
  proof (cases r)
    case None
    show ?thesis
    proof (cases "d = []")
      case True
      with None show ?thesis
        by (subst checksum_pieces.simps) (simp add: file_read_def chunks_Nil)
    next
      case False
      then have "length (drop 8192 d) < length d" by (cases d) auto
      with 1 have IH: "checksum_pieces \<lparr>unread = drop 8192 d, raises_at = None\<rparr> c' m' s' =
          Inr (foldl (\<lambda>crc piece. zlib_crc32 piece crc) c' (chunks 8192 (drop 8192 d)),
               m' @ drop 8192 d, s' @ drop 8192 d)" for c' m' s'
        by simp
      from False None show ?thesis
        by (subst checksum_pieces.simps) (simp add: file_read_def chunks_Cons IH)
    qed
  next
    case (Some k)
    show ?thesis
    proof (cases k)
      case 0
      with Some show ?thesis
        by (subst checksum_pieces.simps) (simp add: file_read_def)
    next
      case (Suc k')
      show ?thesis
      proof (cases "d = []")
        case True
        with Some Suc show ?thesis
          by (subst checksum_pieces.simps) (simp add: file_read_def chunks_Nil)
      next
        case False
        then have "length (drop 8192 d) < length d" by (cases d) auto
        with 1 have IH: "checksum_pieces \<lparr>unread = drop 8192 d, raises_at = Some k'\<rparr> c' m' s' =
            (if k' \<le> length (chunks 8192 (drop 8192 d)) then Inl IOError
             else Inr (foldl (\<lambda>crc piece. zlib_crc32 piece crc) c' (chunks 8192 (drop 8192 d)),
               m' @ drop 8192 d, s' @ drop 8192 d))" for c' m' s'
          by simp
        from False Some Suc show ?thesis
          by (subst checksum_pieces.simps) (simp add: file_read_def chunks_Cons IH)
      qed
    qed
  qed
qed

lemma checksums_try_failure: "isl (checksums_try file) \<longleftrightarrow> io_failure file"
  by (auto simp: checksums_try_def io_failure_def checksum_pieces_eq Let_def
      split: option.splits sum.splits)


lemma mod16_cases:
  assumes "P 0" "P 1" "P 2" "P 3" "P 4" "P 5" "P 6" "P 7" "P 8" "P 9" "P 10" "P 11" "P 12"
    "P 13" "P 14" "P 15"
  shows "P (d mod 16 :: nat)"
proof -
  have "d mod 16 \<in> set [0..<16]" by simp
  moreover have "[0..<16] = [0, 1, 2, 3, 4, 5, 6, 7, 8, 9, 10, 11, 12, 13, 14, 15 :: nat]"
    by code_simp
  ultimately have "d mod 16 \<in> set [0, 1, 2, 3, 4, 5, 6, 7, 8, 9, 10, 11, 12, 13, 14, 15 :: nat]"
    by (simp only:)
  then have "d mod 16 = 0 \<or> d mod 16 = 1 \<or> d mod 16 = 2 \<or> d mod 16 = 3 \<or> d mod 16 = 4 \<or>
      d mod 16 = 5 \<or> d mod 16 = 6 \<or> d mod 16 = 7 \<or> d mod 16 = 8 \<or> d mod 16 = 9 \<or>
      d mod 16 = 10 \<or> d mod 16 = 11 \<or> d mod 16 = 12 \<or> d mod 16 = 13 \<or> d mod 16 = 14 \<or>
      d mod 16 = 15"
    by (simp only: list.set insert_iff empty_iff simp_thms)
  with assms show ?thesis by (elim disjE) simp_all
qed

lemma hex_digit_upper_mem: "hex_digit_upper d \<in> hex_upper_chars"
  unfolding hex_digit_upper_def hex_upper_chars_def by (rule mod16_cases) simp_all

lemma char_upper_hex_digit_lower: "char_upper (hex_digit_lower d) = hex_digit_upper d"
  unfolding hex_digit_upper_def hex_digit_lower_def
  by (rule mod16_cases; code_simp)

lemma hex_upper_chars_upper: "c \<in> hex_upper_chars \<Longrightarrow> char_upper c = c"
  unfolding hex_upper_chars_def list.set insert_iff empty_iff
  by (elim disjE; simp; code_simp)

lemma set_hex_upper: "set (hex_upper n) \<subseteq> hex_upper_chars"
proof (induction n rule: hex_upper.induct)
  case (1 n)
  show ?case
  proof (cases "n < 16")
    case True
    then show ?thesis by (subst hex_upper.simps) (simp add: hex_digit_upper_mem)
  next
    case False
    with 1 show ?thesis by (subst hex_upper.simps) (simp add: hex_digit_upper_mem)
  qed
qed

lemma length_hex_upper: "n < 16 ^ Suc k \<Longrightarrow> length (hex_upper n) \<le> Suc k"
proof (induction k arbitrary: n)
  case 0
  then show ?case by (subst hex_upper.simps) simp
next
  case (Suc k)
  show ?case
  proof (cases "n < 16")
    case True
    then show ?thesis by (subst hex_upper.simps) simp
  next
    case False
    from Suc.prems have "n div 16 < 16 ^ Suc k" by (simp add: div_less_iff_less_mult algebra_simps)
    from Suc.IH[OF this] False show ?thesis by (subst hex_upper.simps) simp
  qed
qed

lemma hex_upper_not_Nil: "hex_upper n \<noteq> []"
  by (subst hex_upper.simps) simp

lemma mask32: "(x :: int) AND 0xFFFFFFFF = x mod 2 ^ 32"
proof -
  have "x AND mask 32 = x mod 2 ^ 32" by (simp flip: take_bit_eq_mask add: take_bit_eq_mod)
  moreover have "(mask 32 :: int) = 0xFFFFFFFF" by (simp add: mask_eq_exp_minus_1)
  ultimately show ?thesis by simp
qed

lemma format_08X_masked:
  "length (format_08X (x AND 0xFFFFFFFF)) = 8 \<and>
   set (format_08X (x AND 0xFFFFFFFF)) \<subseteq> hex_upper_chars"
proof -
  let ?n = "x AND 0xFFFFFFFF"
  have range: "0 \<le> ?n" "?n < 16 ^ Suc 7" by (simp_all add: mask32)
  from length_hex_upper[OF range(2)] have "length (hex_upper ?n) \<le> 8" by simp
  moreover have "CHR ''0'' \<in> hex_upper_chars" by (simp add: hex_upper_chars_def)
  ultimately show ?thesis
    using range(1) set_hex_upper[of ?n]
    unfolding format_08X_def by (auto simp del: replicate_Suc)
qed

lemma str_upper_hex: "set s \<subseteq> hex_upper_chars \<Longrightarrow> str_upper s = s"
  by (induction s) (auto simp: str_upper_def hex_upper_chars_upper)

lemma str_upper_hexdigest:
  "set (str_upper (hexdigest d)) \<subseteq> hex_upper_chars \<and>
   length (str_upper (hexdigest d)) = 2 * length d"
  by (induction d)
     (auto simp: str_upper_def hexdigest_def char_upper_hex_digit_lower hex_digit_upper_mem)

lemma length_hashlib_md5: "length (hashlib_md5 msg) = 16"
  by (simp add: hashlib_md5_def bytes_le_def split: prod.splits)

lemma length_hashlib_sha1: "length (hashlib_sha1 msg) = 20"
  by (simp add: hashlib_sha1_def bytes_be_def bytes_le_def split: prod.splits)

lemma md5_hello_world:
  "hexdigest (hashlib_md5 ''hello world'') = ''5eb63bbbe01eeed093cb22bb8f5acdc3''"
  by code_simp

lemma str_upper_md5_hello_world:
  "str_upper ''5eb63bbbe01eeed093cb22bb8f5acdc3'' = ''5EB63BBBE01EEED093CB22BB8F5ACDC3''"
  by code_simp


lemma misc_calculate_checksums_None:
  "misc_calculate_checksums file = Inr None \<longleftrightarrow> io_failure file"
  using checksums_try_failure[of "file"]
  by (auto simp: misc_calculate_checksums_def split: sum.splits)

lemma misc_calculate_checksums_Some:
  assumes "\<not> io_failure file"
  shows "\<exists>n. getsize file = Inr n \<and>
     misc_calculate_checksums file =
       Inr (Some \<lparr>ck_crc = str_upper (format_08X
                    (foldl (\<lambda>crc piece. zlib_crc32 piece crc) 0 (chunks 8192 (content file))
                       AND 0xFFFFFFFF)),
                  ck_md5 = str_upper (hexdigest (hashlib_md5 (content file))),
                  ck_sha1 = str_upper (hexdigest (hashlib_sha1 (content file))),
                  ck_size = n\<rparr>)"
proof -
  from assms obtain n where n: "getsize file = Inr n"
    by (cases "getsize file") (auto simp: io_failure_def)
  from assms have o: "open_raises file = None" by (simp add: io_failure_def)
  from assms have r: "\<not> (case read_raises_at file of None \<Rightarrow> False
                        | Some k \<Rightarrow> k \<le> length (chunks 8192 (content file)))"
    by (simp add: io_failure_def)
  show ?thesis
    using n o r
    by (simp add: misc_calculate_checksums_def checksums_try_def checksum_pieces_eq Let_def)
qed

text \<open>
  C8.  The checksum function never propagates an exception, and it returns \<open>None\<close>
  exactly when an I/O step fails (\<open>open\<close>, one of the reads the loop makes, or
  \<open>getsize\<close>).  Otherwise it returns the dictionary with: the size that \<open>getsize\<close>
  reports; the CRC-32 of the content, taken modulo \<open>2^32\<close>, as exactly 8 uppercase
  hexadecimal digits; and the MD5 and SHA-1 digests of the content as 32 and 40
  uppercase hexadecimal digits.  For the content \<open>hello world\<close> with reported size 11
  the MD5 entry is \<open>5EB63BBBE01EEED093CB22BB8F5ACDC3\<close> and the size entry is 11.
\<close>

theorem misc_calculate_checksums_result:
  "(\<exists>r. misc_calculate_checksums file = Inr r) \<and>
   (io_failure file \<longleftrightarrow> misc_calculate_checksums file = Inr None) \<and>
   (\<not> io_failure file \<longrightarrow>
      (\<exists>cs. misc_calculate_checksums file = Inr (Some cs) \<and>
         getsize file = Inr (ck_size cs) \<and>
         ck_crc cs = format_08X
           (foldl (\<lambda>crc piece. zlib_crc32 piece crc) 0 (chunks 8192 (content file)) mod 2 ^ 32) \<and>
         length (ck_crc cs) = 8 \<and> set (ck_crc cs) \<subseteq> hex_upper_chars \<and>
         ck_md5 cs = str_upper (hexdigest (hashlib_md5 (content file))) \<and>
         length (ck_md5 cs) = 32 \<and> set (ck_md5 cs) \<subseteq> hex_upper_chars \<and>
         ck_sha1 cs = str_upper (hexdigest (hashlib_sha1 (content file))) \<and>
         length (ck_sha1 cs) = 40 \<and> set (ck_sha1 cs) \<subseteq> hex_upper_chars)) \<and>
   (content file = ''hello world'' \<and> \<not> io_failure file \<and> getsize file = Inr 11 \<longrightarrow>
      (\<exists>cs. misc_calculate_checksums file = Inr (Some cs) \<and>
         ck_md5 cs = ''5EB63BBBE01EEED093CB22BB8F5ACDC3'' \<and> ck_size cs = 11))"
proof (intro conjI impI)
  show "\<exists>r. misc_calculate_checksums file = Inr r"
    by (simp add: misc_calculate_checksums_def split: sum.splits prod.splits)
next
  show "io_failure file \<longleftrightarrow> misc_calculate_checksums file = Inr None"
    by (simp add: misc_calculate_checksums_None)
next
  assume ok: "\<not> io_failure file"
  let ?crc = "foldl (\<lambda>crc piece. zlib_crc32 piece crc) 0 (chunks 8192 (content file))"
  from misc_calculate_checksums_Some[OF ok] obtain n where n: "getsize file = Inr n"
    and res: "misc_calculate_checksums file =
       Inr (Some \<lparr>ck_crc = str_upper (format_08X (?crc AND 0xFFFFFFFF)),
                  ck_md5 = str_upper (hexdigest (hashlib_md5 (content file))),
                  ck_sha1 = str_upper (hexdigest (hashlib_sha1 (content file))),
                  ck_size = n\<rparr>)"
    by blast
  have crc: "str_upper (format_08X (?crc AND 0xFFFFFFFF)) = format_08X (?crc AND 0xFFFFFFFF)"
    using format_08X_masked[of ?crc] by (simp add: str_upper_hex)
  have crc_mod: "format_08X (?crc AND 0xFFFFFFFF) = format_08X (?crc mod 2 ^ 32)"
    by (simp only: mask32)
  show "\<exists>cs. misc_calculate_checksums file = Inr (Some cs) \<and>
         getsize file = Inr (ck_size cs) \<and>
         ck_crc cs = format_08X (?crc mod 2 ^ 32) \<and>
         length (ck_crc cs) = 8 \<and> set (ck_crc cs) \<subseteq> hex_upper_chars \<and>
         ck_md5 cs = str_upper (hexdigest (hashlib_md5 (content file))) \<and>
         length (ck_md5 cs) = 32 \<and> set (ck_md5 cs) \<subseteq> hex_upper_chars \<and>
         ck_sha1 cs = str_upper (hexdigest (hashlib_sha1 (content file))) \<and>
         length (ck_sha1 cs) = 40 \<and> set (ck_sha1 cs) \<subseteq> hex_upper_chars"
    unfolding res
    using n crc crc_mod format_08X_masked[of ?crc]
      str_upper_hexdigest[of "hashlib_md5 (content file)"]
      str_upper_hexdigest[of "hashlib_sha1 (content file)"]
    by (simp add: length_hashlib_md5 length_hashlib_sha1)
next
  assume a: "content file = ''hello world'' \<and> \<not> io_failure file \<and> getsize file = Inr 11"
  then have ok: "\<not> io_failure file" by simp
  from misc_calculate_checksums_Some[OF ok] a
  show "\<exists>cs. misc_calculate_checksums file = Inr (Some cs) \<and>
         ck_md5 cs = ''5EB63BBBE01EEED093CB22BB8F5ACDC3'' \<and> ck_size cs = 11"
    by (auto simp: md5_hello_world str_upper_md5_hello_world)
qed

theorem misc_calculate_checksums_result_witness:
  "misc_calculate_checksums unreadable_file = Inr None \<and>
   (\<exists>cs. misc_calculate_checksums hello_world_file = Inr (Some cs) \<and>
         ck_md5 cs = ''5EB63BBBE01EEED093CB22BB8F5ACDC3'' \<and> ck_size cs = 11 \<and>
         length (ck_crc cs) = 8)"
proof -
  have bad: "io_failure unreadable_file"
    by (simp add: io_failure_def unreadable_file_def)
  have good: "\<not> io_failure hello_world_file"
    by (simp add: io_failure_def hello_world_file_def)
  have facts: "content hello_world_file = ''hello world''" "getsize hello_world_file = Inr 11"
    by (simp_all add: hello_world_file_def)
  from misc_calculate_checksums_result[of unreadable_file] bad
  have 1: "misc_calculate_checksums unreadable_file = Inr None" by blast
  from misc_calculate_checksums_result[of hello_world_file] good facts
  have 2: "\<exists>cs. misc_calculate_checksums hello_world_file = Inr (Some cs) \<and>
         ck_md5 cs = ''5EB63BBBE01EEED093CB22BB8F5ACDC3'' \<and> ck_size cs = 11"
    by blast
  from misc_calculate_checksums_result[of hello_world_file] good
  have 3: "\<exists>cs. misc_calculate_checksums hello_world_file = Inr (Some cs) \<and> length (ck_crc cs) = 8"
    by blast
  from 1 2 3 show ?thesis by auto
qed


section \<open>Properties of the BIOS audit\<close>


lemma bios_selected_psx:
  "filter (\<lambda>e. ''mednafen_psx'' \<in> set (cores e)) Libretro_BIOS_list =
     [scph5500,
      \<lparr>filename = ''scph5501.bin'', size_bytes = 524288,
        md5 = ''490f666e1afb15b7362b406ed1cea246'',
        mandatory = True, cores = [''mednafen_psx'', ''mednafen_psx_hw'', ''pcsx_rearmed'']\<rparr>,
      \<lparr>filename = ''scph5502.bin'', size_bytes = 524288,
        md5 = ''32736f17079d0b2b7024407c39bd3050'',
        mandatory = True, cores = [''mednafen_psx'', ''mednafen_psx_hw'', ''pcsx_rearmed'']\<rparr>]"
  by (simp add: Libretro_BIOS_list_def scph5500_def)

text \<open>
  C9.  The table has the mandatory row \<open>scph5500.bin\<close> (524288 bytes, MD5
  \<open>8dd7d5296a650fac7319bce665a6a53c\<close>), and the audit for core \<open>mednafen_psx\<close>
  selects it.  For a listing with no file of that name, size and MD5 the row is
  reported unsatisfied; for a listing with such a file it is reported satisfied.
\<close>

theorem bios_audit_scph5500:
  "scph5500 \<in> set Libretro_BIOS_list \<and> mandatory scph5500 \<and>
   map fst (bios_audit listing ''mednafen_psx'') =
     filter (\<lambda>e. ''mednafen_psx'' \<in> set (cores e)) Libretro_BIOS_list \<and>
   scph5500 \<in> fst ` set (bios_audit listing ''mednafen_psx'') \<and>
   ((\<forall>f \<in> set listing. \<not> (lf_filename f = ''scph5500.bin'' \<and> lf_size f = 524288 \<and>
                             lf_md5 f = ''8dd7d5296a650fac7319bce665a6a53c''))
      \<longrightarrow> (scph5500, False) \<in> set (bios_audit listing ''mednafen_psx'') \<and>
          (scph5500, True) \<notin> set (bios_audit listing ''mednafen_psx'')) \<and>
   ((\<exists>f \<in> set listing. lf_filename f = ''scph5500.bin'' \<and> lf_size f = 524288 \<and>
                        lf_md5 f = ''8dd7d5296a650fac7319bce665a6a53c'')
      \<longrightarrow> (scph5500, True) \<in> set (bios_audit listing ''mednafen_psx'') \<and>
          (scph5500, False) \<notin> set (bios_audit listing ''mednafen_psx''))"
proof -
  have sat: "bios_entry_satisfied listing scph5500 \<longleftrightarrow>
      (\<exists>f \<in> set listing. lf_filename f = ''scph5500.bin'' \<and> lf_size f = 524288 \<and>
                        lf_md5 f = ''8dd7d5296a650fac7319bce665a6a53c'')"
    by (simp add: bios_entry_satisfied_def list_ex_iff bios_file_matches_def scph5500_def)
  have mem: "scph5500 \<in> set Libretro_BIOS_list"
    by (simp add: Libretro_BIOS_list_def scph5500_def)
  have man: "mandatory scph5500" by (simp add: scph5500_def)
  have sel: "map fst (bios_audit listing ''mednafen_psx'') =
     filter (\<lambda>e. ''mednafen_psx'' \<in> set (cores e)) Libretro_BIOS_list"
    by (simp add: bios_audit_def comp_def)
  have pairs: "(scph5500, b) \<in> set (bios_audit listing ''mednafen_psx'') \<longleftrightarrow>
      b = bios_entry_satisfied listing scph5500" for b
    unfolding bios_audit_def bios_selected_psx by (auto simp: scph5500_def)
  have infst: "scph5500 \<in> fst ` set (bios_audit listing ''mednafen_psx'')"
    using pairs[of "bios_entry_satisfied listing scph5500"] by force
  show ?thesis using sat mem man sel pairs infst by auto
qed

theorem bios_audit_scph5500_witness:
  "(scph5500, False) \<in> set (bios_audit [] ''mednafen_psx'') \<and>
   (scph5500, True) \<in> set (bios_audit [scph5500_file] ''mednafen_psx'')"
  using bios_audit_scph5500[of "[]"] bios_audit_scph5500[of "[scph5500_file]"]
  by (simp add: scph5500_file_def)


end
